theory Spec2Isabelle
  imports Main "HOL-Library.AList"
begin

section \<open>Results and errors\<close>

text \<open>
  The exceptions the compiler can raise are values. \<open>OutOfFuel\<close> is not a Python
  exception: the recursive-descent procedures are modelled with a recursion budget, and
  \<open>OutOfFuel\<close> marks a run for which the budget given was too small.
\<close>

datatype error = SyntaxError | AttributeError | ValueError | IndexError | IOError | OutOfFuel

definition and_then :: "error + 'a \<Rightarrow> ('a \<Rightarrow> error + 'b) \<Rightarrow> error + 'b" where
  "and_then m f = (case m of Inl e \<Rightarrow> Inl e | Inr x \<Rightarrow> f x)"

section \<open>Decimal rendering of Python integers\<close>

text \<open>
  \<open>str_nat n\<close> is Python's \<open>str(n)\<close> for a non-negative integer, as used by the f-strings
  of the code generator.
\<close>

definition digit_char :: "nat \<Rightarrow> char" where
  "digit_char d = char_of (48 + d)"

function str_nat :: "nat \<Rightarrow> string" where
  "str_nat n = (if n < 10 then [digit_char n] else str_nat (n div 10) @ [digit_char (n mod 10)])"
  by pat_completeness auto
termination
  by (relation "measure (\<lambda>n. n)") auto

declare str_nat.simps [simp del]

definition is_ascii_digit :: "char \<Rightarrow> bool" where
  "is_ascii_digit c = (48 \<le> (of_char c :: nat) \<and> (of_char c :: nat) \<le> 57)"

text \<open>
  \<open>python_int s\<close> is Python's \<open>int(s)\<close> on a string of \<open>isdigit\<close> characters, the only
  strings a token of type \<open>INT_CONST\<close> from the tokenizer holds: the value of a run of
  ASCII digits, and \<open>ValueError\<close> when the run holds a superscript digit (for which
  \<open>isdigit\<close> is true and \<open>int\<close> raises) or is empty.
\<close>

definition python_int :: "string \<Rightarrow> error + nat" where
  "python_int s =
     (if s \<noteq> [] \<and> list_all is_ascii_digit s
      then Inr (foldl (\<lambda>acc c. 10 * acc + ((of_char c :: nat) - 48)) 0 s)
      else Inl ValueError)"

section \<open>Tokenizer\<close>

datatype TokenType = KEYWORD | SYMBOL | IDENTIFIER | INT_CONST | STRING_CONST | EOF

record Token =
  tok_type :: TokenType
  tok_value :: string
  tok_line :: nat

definition KEYWORDS :: "string list" where
  "KEYWORDS = [''class'', ''constructor'', ''function'', ''method'', ''field'', ''static'',
     ''var'', ''int'', ''char'', ''boolean'', ''void'', ''true'', ''false'', ''null'',
     ''this'', ''let'', ''do'', ''if'', ''else'', ''while'', ''return'']"

definition SYMBOLS :: "char list" where
  "SYMBOLS = ''{}()[].,;=+-*/<>&|~''"

text \<open>
  The source text is a list of characters with code points 0 to 255. The four predicates
  are Python's \<open>str.isspace\<close>, \<open>str.isdigit\<close>, \<open>str.isalpha\<close> and \<open>str.isalnum\<close> on these
  code points.
\<close>

definition isspace :: "char \<Rightarrow> bool" where
  "isspace c = (let n = (of_char c :: nat) in
     (9 \<le> n \<and> n \<le> 13) \<or> (28 \<le> n \<and> n \<le> 32) \<or> n = 133 \<or> n = 160)"

definition isdigit :: "char \<Rightarrow> bool" where
  "isdigit c = (let n = (of_char c :: nat) in
     (48 \<le> n \<and> n \<le> 57) \<or> n = 178 \<or> n = 179 \<or> n = 185)"

definition isalpha :: "char \<Rightarrow> bool" where
  "isalpha c = (let n = (of_char c :: nat) in
     (65 \<le> n \<and> n \<le> 90) \<or> (97 \<le> n \<and> n \<le> 122) \<or> n = 170 \<or> n = 181 \<or> n = 186 \<or>
     (192 \<le> n \<and> n \<le> 214) \<or> (216 \<le> n \<and> n \<le> 246) \<or> (248 \<le> n \<and> n \<le> 255))"

definition isalnum :: "char \<Rightarrow> bool" where
  "isalnum c = (let n = (of_char c :: nat) in
     isalpha c \<or> isdigit c \<or> (188 \<le> n \<and> n \<le> 190))"

definition newline :: char where
  "newline = CHR 0x0A"

text \<open>
  The cursor \<open>self.pos\<close> only moves forward and the scanner only reads \<open>code[pos:]\<close>, so the
  scanner's state is the unread suffix of the text, the line counter and the tokens so far.
  A cursor at or beyond the end of the text is the empty suffix.

  \<open>skip_block_comment\<close> is the inner loop of \<open>_skip_whitespace_and_comments\<close> that runs
  after the opening \<open>/*\<close> has been passed: it stops after the first \<open>*/\<close>, or with fewer
  than two characters left.
\<close>

fun skip_block_comment :: "string \<Rightarrow> nat \<Rightarrow> string \<times> nat" where
  "skip_block_comment (a # b # rest) line =
     (if [a, b] = ''*/'' then (rest, line)
      else skip_block_comment (b # rest) (if a = newline then line + 1 else line))"
| "skip_block_comment cs line = (cs, line)"

lemma skip_block_comment_length:
  "length (fst (skip_block_comment cs line)) \<le> length cs"
  by (induction cs line rule: skip_block_comment.induct) auto

lemma line_comment_length:
  assumes "take 2 (c # cs) = ''//''"
  shows "length (dropWhile (\<lambda>x. x \<noteq> newline) (c # cs)) < Suc (length cs)"
proof -
  from assms have "c \<noteq> newline" by (auto simp: newline_def)
  then show ?thesis
    using length_dropWhile_le [of "\<lambda>x. x \<noteq> newline" cs] by simp
qed

lemma block_comment_length:
  assumes "(x, y) = skip_block_comment (drop 2 (c # cs)) line"
  shows "length x < Suc (length cs)"
proof -
  have "length (fst (skip_block_comment (drop 2 (c # cs)) line)) \<le> length (drop 2 (c # cs))"
    by (rule skip_block_comment_length)
  with assms [symmetric] show ?thesis by simp
qed

function skip_whitespace_and_comments :: "string \<Rightarrow> nat \<Rightarrow> string \<times> nat" where
  "skip_whitespace_and_comments [] line = ([], line)"
| "skip_whitespace_and_comments (c # cs) line =
     (if isspace c then
        skip_whitespace_and_comments cs (if c = newline then line + 1 else line)
      else if cs \<noteq> [] \<and> take 2 (c # cs) = ''//'' then
        skip_whitespace_and_comments (dropWhile (\<lambda>x. x \<noteq> newline) (c # cs)) line
      else if cs \<noteq> [] \<and> take 2 (c # cs) = ''/*'' then
        (case skip_block_comment (drop 2 (c # cs)) line of
           (cs', line') \<Rightarrow> skip_whitespace_and_comments cs' line')
      else (c # cs, line))"
  by pat_completeness auto
termination
proof (relation "measure (\<lambda>(cs, line). length cs)", goal_cases)
  case 1
  show ?case by simp
next
  case 2
  show ?case by simp
next
  case (3 c cs line)
  then have "take 2 (c # cs) = ''//''" by blast
  from line_comment_length [OF this] show ?case by simp
next
  case (4 c cs line x y)
  from block_comment_length [OF 4(4)] show ?case by simp
qed

declare skip_whitespace_and_comments.simps [simp del]

text \<open>
  The three readers return the token they append and the unread suffix they leave.
  \<open>read_string\<close> is entered with the opening quote as the first character; the line counter
  is not advanced inside a string literal, and a literal that is not closed runs to the
  end of the text.
\<close>

definition read_string :: "string \<Rightarrow> nat \<Rightarrow> Token \<times> string" where
  "read_string cs line =
     (let body = drop 1 cs;
          val = takeWhile (\<lambda>x. x \<noteq> CHR 0x22) body
      in (\<lparr>tok_type = STRING_CONST, tok_value = val, tok_line = line\<rparr>,
          drop 1 (dropWhile (\<lambda>x. x \<noteq> CHR 0x22) body)))"

definition read_number :: "string \<Rightarrow> nat \<Rightarrow> Token \<times> string" where
  "read_number cs line =
     (\<lparr>tok_type = INT_CONST, tok_value = takeWhile isdigit cs, tok_line = line\<rparr>,
      dropWhile isdigit cs)"

definition read_identifier :: "string \<Rightarrow> nat \<Rightarrow> Token \<times> string" where
  "read_identifier cs line =
     (let val = takeWhile (\<lambda>x. isalnum x \<or> x = CHR ''_'') cs;
          rest = dropWhile (\<lambda>x. isalnum x \<or> x = CHR ''_'') cs
      in if val \<in> set KEYWORDS
         then (\<lparr>tok_type = KEYWORD, tok_value = val, tok_line = line\<rparr>, rest)
         else (\<lparr>tok_type = IDENTIFIER, tok_value = val, tok_line = line\<rparr>, rest))"

lemma skip_space:
  "isspace c \<Longrightarrow> skip_whitespace_and_comments (c # cs) line =
     skip_whitespace_and_comments cs (if c = newline then line + 1 else line)"
  by (subst skip_whitespace_and_comments.simps) simp

lemma skip_line_comment:
  "\<not> isspace c \<Longrightarrow> cs \<noteq> [] \<Longrightarrow> take 2 (c # cs) = ''//'' \<Longrightarrow>
   skip_whitespace_and_comments (c # cs) line =
     skip_whitespace_and_comments (dropWhile (\<lambda>x. x \<noteq> newline) (c # cs)) line"
  by (subst skip_whitespace_and_comments.simps) (simp only: if_True if_False simp_thms)

lemma skip_block:
  "\<not> isspace c \<Longrightarrow> cs \<noteq> [] \<Longrightarrow> take 2 (c # cs) = ''/*'' \<Longrightarrow>
   skip_whitespace_and_comments (c # cs) line =
     skip_whitespace_and_comments (fst (skip_block_comment (drop 2 (c # cs)) line))
       (snd (skip_block_comment (drop 2 (c # cs)) line))"
  by (subst skip_whitespace_and_comments.simps) (simp add: case_prod_beta)

lemma skip_stop:
  "\<not> isspace c \<Longrightarrow> \<not> (cs \<noteq> [] \<and> take 2 (c # cs) = ''//'') \<Longrightarrow>
   \<not> (cs \<noteq> [] \<and> take 2 (c # cs) = ''/*'') \<Longrightarrow>
   skip_whitespace_and_comments (c # cs) line = (c # cs, line)"
  by (subst skip_whitespace_and_comments.simps) (simp only: if_True if_False simp_thms)

lemma skip_whitespace_and_comments_length:
  "length (fst (skip_whitespace_and_comments cs line)) \<le> length cs"
proof (induction cs line rule: skip_whitespace_and_comments.induct)
  case (1 line)
  show ?case by (simp add: skip_whitespace_and_comments.simps(1))
next
  case (2 c cs line)
  show ?case
  proof (cases "isspace c")
    case True
    from 2(1) [OF True] show ?thesis
      by (simp only: skip_space [OF True] length_Cons le_SucI)
  next
    case ns: False
    show ?thesis
    proof (cases "cs \<noteq> [] \<and> take 2 (c # cs) = ''//''")
      case True
      then have t: "take 2 (c # cs) = ''//''" and ne: "cs \<noteq> []" by blast+
      have "length (fst (skip_whitespace_and_comments (c # cs) line))
          \<le> length (dropWhile (\<lambda>x. x \<noteq> newline) (c # cs))"
        using 2(2) [OF ns True] by (simp only: skip_line_comment [OF ns ne t])
      also have "\<dots> \<le> length (c # cs)"
        by (rule length_dropWhile_le)
      finally show ?thesis .
    next
      case nl: False
      show ?thesis
      proof (cases "cs \<noteq> [] \<and> take 2 (c # cs) = ''/*''")
        case True
        then have t: "take 2 (c # cs) = ''/*''" and ne: "cs \<noteq> []" by blast+
        obtain cs' line' where s: "skip_block_comment (drop 2 (c # cs)) line = (cs', line')"
          by (cases "skip_block_comment (drop 2 (c # cs)) line")
        have "length (fst (skip_whitespace_and_comments (c # cs) line)) \<le> length cs'"
          using 2(3) [OF ns nl True s [symmetric]]
          by (simp only: skip_block [OF ns ne t] s fst_conv snd_conv)
        also have "\<dots> \<le> length (drop 2 (c # cs))"
          using skip_block_comment_length [of "drop 2 (c # cs)" line] by (simp only: s fst_conv)
        also have "\<dots> \<le> length (c # cs)"
          by simp
        finally show ?thesis .
      next
        case False
        show ?thesis
          by (simp only: skip_stop [OF ns nl False] fst_conv order_refl)
      qed
    qed
  qed
qed

lemma skipped_length:
  assumes "skip_whitespace_and_comments cs line = (c # rest, line')"
  shows "length rest < length cs"
  using skip_whitespace_and_comments_length [of cs line] assms by simp

lemma read_string_length:
  assumes "(tok, cs') = read_string (c # rest) line"
  shows "length cs' \<le> length rest"
  using assms length_dropWhile_le [of "\<lambda>x. x \<noteq> CHR 0x22" rest]
  by (simp add: read_string_def)

lemma read_number_length:
  assumes "isdigit c" and "(tok, cs') = read_number (c # rest) line"
  shows "length cs' \<le> length rest"
  using assms length_dropWhile_le [of isdigit rest]
  by (simp add: read_number_def)

lemma read_identifier_length:
  assumes "isalpha c \<or> c = CHR ''_''" and "(tok, cs') = read_identifier (c # rest) line"
  shows "length cs' \<le> length rest"
proof -
  from assms(1) have "isalnum c \<or> c = CHR ''_''"
    by (auto simp: isalnum_def)
  with assms(2) show ?thesis
    using length_dropWhile_le [of "\<lambda>x. isalnum x \<or> x = CHR ''_''" rest]
    by (auto simp: read_identifier_def Let_def split: if_splits)
qed

definition eof_token :: "nat \<Rightarrow> Token" where
  "eof_token line = \<lparr>tok_type = EOF, tok_value = [], tok_line = line\<rparr>"

function tokenize_loop :: "string \<Rightarrow> nat \<Rightarrow> Token list \<Rightarrow> Token list" where
  "tokenize_loop cs line toks =
     (if cs = [] then toks @ [eof_token line]
      else case skip_whitespace_and_comments cs line of
        ([], line') \<Rightarrow> toks @ [eof_token line']
      | (c # rest, line') \<Rightarrow>
          if c = CHR 0x22 then
            (case read_string (c # rest) line' of
               (tok, cs') \<Rightarrow> tokenize_loop cs' line' (toks @ [tok]))
          else if isdigit c then
            (case read_number (c # rest) line' of
               (tok, cs') \<Rightarrow> tokenize_loop cs' line' (toks @ [tok]))
          else if isalpha c \<or> c = CHR ''_'' then
            (case read_identifier (c # rest) line' of
               (tok, cs') \<Rightarrow> tokenize_loop cs' line' (toks @ [tok]))
          else if c \<in> set SYMBOLS then
            tokenize_loop rest line'
              (toks @ [\<lparr>tok_type = SYMBOL, tok_value = [c], tok_line = line'\<rparr>])
          else tokenize_loop rest line' toks)"
  by pat_completeness auto
termination
proof (relation "measure (\<lambda>(cs, line, toks). length cs)", goal_cases)
  case 1
  show ?case by simp
next
  case (2 cs line toks x y c rest tok cs')
  from 2(2,3) have "length rest < length cs"
    using skipped_length [of cs line c rest y] by simp
  moreover have "length cs' \<le> length rest"
    using read_string_length [OF 2(5)] .
  ultimately show ?case by simp
next
  case (3 cs line toks x y c rest tok cs')
  from 3(2,3) have "length rest < length cs"
    using skipped_length [of cs line c rest y] by simp
  moreover have "length cs' \<le> length rest"
    using read_number_length [OF 3(5,6)] .
  ultimately show ?case by simp
next
  case (4 cs line toks x y c rest tok cs')
  from 4(2,3) have "length rest < length cs"
    using skipped_length [of cs line c rest y] by simp
  moreover have "length cs' \<le> length rest"
    using read_identifier_length [OF 4(6,7)] .
  ultimately show ?case by simp
next
  case (5 cs line toks x y c rest)
  from 5(2,3) have "length rest < length cs"
    using skipped_length [of cs line c rest y] by simp
  then show ?case by simp
next
  case (6 cs line toks x y c rest)
  from 6(2,3) have "length rest < length cs"
    using skipped_length [of cs line c rest y] by simp
  then show ?case by simp
qed

declare tokenize_loop.simps [simp del]

definition tokenize :: "string \<Rightarrow> Token list" where
  "tokenize code = tokenize_loop code 1 []"

section \<open>Symbol table\<close>

datatype SymbolKind = STATIC | FIELD | ARG | VAR

record Symbol =
  sym_name :: string
  sym_type :: string
  sym_kind :: SymbolKind
  sym_index :: nat

text \<open>
  The two dictionaries are association lists with distinct keys: assigning to a key that
  is present replaces its value in place, assigning to a new key appends an entry.
\<close>

record SymbolTable =
  class_symbols :: "(string \<times> Symbol) list"
  subroutine_symbols :: "(string \<times> Symbol) list"
  static_count :: nat
  field_count :: nat
  arg_count :: nat
  var_count :: nat

definition SymbolTable_init :: SymbolTable where
  "SymbolTable_init = \<lparr>class_symbols = [], subroutine_symbols = [],
     static_count = 0, field_count = 0, arg_count = 0, var_count = 0\<rparr>"

definition start_subroutine :: "SymbolTable \<Rightarrow> SymbolTable" where
  "start_subroutine t = t\<lparr>subroutine_symbols := [], arg_count := 0, var_count := 0\<rparr>"

text \<open>\<open>get_count\<close> returns the counter of the kind and the table with that counter advanced.\<close>

fun get_count :: "SymbolKind \<Rightarrow> SymbolTable \<Rightarrow> nat \<times> SymbolTable" where
  "get_count STATIC t = (static_count t, t\<lparr>static_count := static_count t + 1\<rparr>)"
| "get_count FIELD t = (field_count t, t\<lparr>field_count := field_count t + 1\<rparr>)"
| "get_count ARG t = (arg_count t, t\<lparr>arg_count := arg_count t + 1\<rparr>)"
| "get_count VAR t = (var_count t, t\<lparr>var_count := var_count t + 1\<rparr>)"

definition "define" :: "string \<Rightarrow> string \<Rightarrow> SymbolKind \<Rightarrow> SymbolTable \<Rightarrow> SymbolTable" where
  "define name type kind t =
     (case get_count kind t of (i, t') \<Rightarrow>
        let symbol = \<lparr>sym_name = name, sym_type = type, sym_kind = kind, sym_index = i\<rparr>
        in if kind \<in> set [STATIC, FIELD]
           then t'\<lparr>class_symbols := AList.update name symbol (class_symbols t')\<rparr>
           else t'\<lparr>subroutine_symbols := AList.update name symbol (subroutine_symbols t')\<rparr>)"

definition lookup :: "string \<Rightarrow> SymbolTable \<Rightarrow> Symbol option" where
  "lookup name t =
     (case map_of (subroutine_symbols t) name of
        Some symbol \<Rightarrow> Some symbol
      | None \<Rightarrow> map_of (class_symbols t) name)"

section \<open>Code generator\<close>

record CodeGenerator =
  cg_class_name :: string
  "output" :: "string list"
  label_counter :: nat

definition CodeGenerator_init :: "string \<Rightarrow> CodeGenerator" where
  "CodeGenerator_init class_name =
     \<lparr>cg_class_name = class_name, output = [], label_counter = 0\<rparr>"

definition "write" :: "string \<Rightarrow> CodeGenerator \<Rightarrow> CodeGenerator" where
  "write cmd cg = cg\<lparr>output := output cg @ [cmd]\<rparr>"

definition write_push :: "string \<Rightarrow> nat \<Rightarrow> CodeGenerator \<Rightarrow> CodeGenerator" where
  "write_push segment index cg = write (''push '' @ segment @ '' '' @ str_nat index) cg"

definition write_pop :: "string \<Rightarrow> nat \<Rightarrow> CodeGenerator \<Rightarrow> CodeGenerator" where
  "write_pop segment index cg = write (''pop '' @ segment @ '' '' @ str_nat index) cg"

definition op_map :: "(string \<times> string) list" where
  "op_map = [(''+'', ''add''), (''-'', ''sub''), (''*'', ''call Math.multiply 2''),
     (''/'', ''call Math.divide 2''), (''&'', ''and''), (''|'', ''or''), (''<'', ''lt''),
     (''>'', ''gt''), (''='', ''eq''), (''~'', ''not''), (''-neg'', ''neg'')]"

definition write_arithmetic :: "string \<Rightarrow> CodeGenerator \<Rightarrow> CodeGenerator" where
  "write_arithmetic op cg = write (case map_of op_map op of Some cmd \<Rightarrow> cmd | None \<Rightarrow> op) cg"

definition write_call :: "string \<Rightarrow> nat \<Rightarrow> CodeGenerator \<Rightarrow> CodeGenerator" where
  "write_call name nargs cg = write (''call '' @ name @ '' '' @ str_nat nargs) cg"

definition write_function :: "string \<Rightarrow> nat \<Rightarrow> CodeGenerator \<Rightarrow> CodeGenerator" where
  "write_function name nlocals cg = write (''function '' @ name @ '' '' @ str_nat nlocals) cg"

definition write_return :: "CodeGenerator \<Rightarrow> CodeGenerator" where
  "write_return cg = write ''return'' cg"

definition write_label :: "string \<Rightarrow> CodeGenerator \<Rightarrow> CodeGenerator" where
  "write_label label cg = write (''label '' @ label) cg"

definition write_goto :: "string \<Rightarrow> CodeGenerator \<Rightarrow> CodeGenerator" where
  "write_goto label cg = write (''goto '' @ label) cg"

definition write_if :: "string \<Rightarrow> CodeGenerator \<Rightarrow> CodeGenerator" where
  "write_if label cg = write (''if-goto '' @ label) cg"

definition get_unique_label :: "string \<Rightarrow> CodeGenerator \<Rightarrow> string \<times> CodeGenerator" where
  "get_unique_label prefix cg =
     (prefix @ ''_'' @ str_nat (label_counter cg), cg\<lparr>label_counter := label_counter cg + 1\<rparr>)"

fun join :: "string \<Rightarrow> string list \<Rightarrow> string" where
  "join sep [] = []"
| "join sep [x] = x"
| "join sep (x # y # ys) = x @ sep @ join sep (y # ys)"

definition get_code :: "CodeGenerator \<Rightarrow> string" where
  "get_code cg = join [newline] (output cg)"

section \<open>Parser\<close>

text \<open>
  \<open>code_gen\<close> is \<open>None\<close> in the source until \<open>compile_class\<close> assigns it, and no method reads
  it before; here it starts as an empty generator. \<open>pos\<close> is a Python integer: the term
  compiler steps it back by one, and a negative index counts from the end of the list.
\<close>

record Parser =
  tokens :: "Token list"
  pos :: int
  current_token :: Token
  symbol_table :: SymbolTable
  code_gen :: CodeGenerator
  class_name :: string
  subroutine_name :: string

definition py_index :: "'a list \<Rightarrow> int \<Rightarrow> error + nat" where
  "py_index xs i =
     (let n = int (length xs); j = (if i < 0 then n + i else i)
      in if 0 \<le> j \<and> j < n then Inr (nat j) else Inl IndexError)"

definition Parser_init :: "Token list \<Rightarrow> Parser" where
  "Parser_init toks =
     \<lparr>tokens = toks, pos = 0,
      current_token = (if toks \<noteq> [] then hd toks
                       else \<lparr>tok_type = EOF, tok_value = [], tok_line = 0\<rparr>),
      symbol_table = SymbolTable_init, code_gen = CodeGenerator_init [],
      class_name = [], subroutine_name = []\<rparr>"

definition advance :: "Parser \<Rightarrow> error + Parser" where
  "advance st =
     (if pos st < int (length (tokens st)) - 1 then
        and_then (py_index (tokens st) (pos st + 1)) (\<lambda>i.
        Inr (st\<lparr>pos := pos st + 1, current_token := tokens st ! i\<rparr>))
      else Inr st)"

text \<open>
  \<open>expect types val\<close>: \<open>types\<close> are the \<open>TokenType\<close> arguments of the call and \<open>val\<close> its
  string argument, if any.
\<close>

definition expect :: "TokenType list \<Rightarrow> string option \<Rightarrow> Parser \<Rightarrow> error + (Token \<times> Parser)" where
  "expect types val st =
     (if types = [] then Inl ValueError
      else if tok_type (current_token st) \<notin> set types then Inl SyntaxError
      else if (case val of Some v \<Rightarrow> v \<noteq> [] \<and> tok_value (current_token st) \<noteq> v
               | None \<Rightarrow> False) then Inl SyntaxError
      else and_then (advance st) (\<lambda>st'. Inr (current_token st, st')))"

definition match :: "string list \<Rightarrow> Parser \<Rightarrow> bool" where
  "match vals st = (tok_value (current_token st) \<in> set vals)"

text \<open>\<open>gen f st\<close> is the call \<open>self.code_gen.f(...)\<close>.\<close>

definition gen :: "(CodeGenerator \<Rightarrow> CodeGenerator) \<Rightarrow> Parser \<Rightarrow> Parser" where
  "gen f st = st\<lparr>code_gen := f (code_gen st)\<rparr>"

definition segment_for :: "SymbolKind \<Rightarrow> string" where
  "segment_for kind =
     (if kind = FIELD then ''this''
      else if kind = STATIC then ''static''
      else if kind = ARG then ''argument''
      else ''local'')"

text \<open>
  \<open>push_symbol symbol\<close> and \<open>pop_symbol symbol\<close> are the calls
  \<open>write_push(self._segment_for(symbol.kind), symbol.index)\<close> and the same with
  \<open>write_pop\<close>, where \<open>symbol\<close> is the result of a lookup: reading \<open>symbol.kind\<close> of \<open>None\<close>
  raises \<open>AttributeError\<close>.
\<close>

definition push_symbol :: "Symbol option \<Rightarrow> Parser \<Rightarrow> error + Parser" where
  "push_symbol symbol st =
     (case symbol of None \<Rightarrow> Inl AttributeError
      | Some s \<Rightarrow> Inr (gen (write_push (segment_for (sym_kind s)) (sym_index s)) st))"

definition pop_symbol :: "Symbol option \<Rightarrow> Parser \<Rightarrow> error + Parser" where
  "pop_symbol symbol st =
     (case symbol of None \<Rightarrow> Inl AttributeError
      | Some s \<Rightarrow> Inr (gen (write_pop (segment_for (sym_kind s)) (sym_index s)) st))"

text \<open>
  \<open>step_back ident\<close> is the un-read of the term compiler before a subroutine call:
  \<open>self.pos -= 1\<close>, \<open>self.current_token = self.tokens[self.pos]\<close>, and the two assignments
  to the fields of that token, which is the object held in the list.
\<close>

definition step_back :: "string \<Rightarrow> Parser \<Rightarrow> error + Parser" where
  "step_back ident st =
     and_then (py_index (tokens st) (pos st - 1)) (\<lambda>i.
     let tok = (tokens st ! i)\<lparr>tok_value := ident, tok_type := IDENTIFIER\<rparr>
     in Inr (st\<lparr>pos := pos st - 1, tokens := (tokens st)[i := tok], current_token := tok\<rparr>))"

text \<open>
  \<open>string_chars s\<close> is the \<open>for char in string_val\<close> loop of the term compiler.
\<close>

definition string_chars :: "string \<Rightarrow> CodeGenerator \<Rightarrow> CodeGenerator" where
  "string_chars s cg =
     fold (\<lambda>char cg. write_call ''String.appendChar'' 2
                       (write_push ''constant'' (of_char char) cg)) s cg"

text \<open>
  The procedures for statements and expressions call each other. Each takes a budget that
  every call and every loop iteration lowers by one. The \<open>while\<close> loops of
  \<open>compile_expression\<close> and \<open>compile_expression_list\<close> are \<open>compile_expression_loop\<close> and
  \<open>compile_expression_list_loop\<close>.
\<close>

fun compile_statements :: "nat \<Rightarrow> Parser \<Rightarrow> error + Parser"
  and compile_let :: "nat \<Rightarrow> Parser \<Rightarrow> error + Parser"
  and compile_if :: "nat \<Rightarrow> Parser \<Rightarrow> error + Parser"
  and compile_while :: "nat \<Rightarrow> Parser \<Rightarrow> error + Parser"
  and compile_do :: "nat \<Rightarrow> Parser \<Rightarrow> error + Parser"
  and compile_return :: "nat \<Rightarrow> Parser \<Rightarrow> error + Parser"
  and compile_expression :: "nat \<Rightarrow> Parser \<Rightarrow> error + Parser"
  and compile_expression_loop :: "nat \<Rightarrow> Parser \<Rightarrow> error + Parser"
  and compile_term :: "nat \<Rightarrow> Parser \<Rightarrow> error + Parser"
  and compile_subroutine_call :: "nat \<Rightarrow> Parser \<Rightarrow> error + Parser"
  and compile_expression_list :: "nat \<Rightarrow> Parser \<Rightarrow> error + (nat \<times> Parser)"
  and compile_expression_list_loop :: "nat \<Rightarrow> nat \<Rightarrow> Parser \<Rightarrow> error + (nat \<times> Parser)"
where
  "compile_statements 0 st = Inl OutOfFuel"
| "compile_statements (Suc n) st =
     (if match [''let'', ''if'', ''while'', ''do'', ''return''] st then
        and_then
          (if match [''let''] st then compile_let n st
           else if match [''if''] st then compile_if n st
           else if match [''while''] st then compile_while n st
           else if match [''do''] st then compile_do n st
           else if match [''return''] st then compile_return n st
           else Inr st)
          (\<lambda>st. compile_statements n st)
      else Inr st)"
| "compile_let 0 st = Inl OutOfFuel"
| "compile_let (Suc n) st =
     and_then (expect [KEYWORD] (Some ''let'') st) (\<lambda>(_, st).
     and_then (expect [IDENTIFIER] None st) (\<lambda>(tok, st).
     let var_name = tok_value tok;
         symbol = lookup var_name (symbol_table st)
     in
     and_then
       (if match [''[''] st then
          and_then (advance st) (\<lambda>st.
          and_then (compile_expression n st) (\<lambda>st.
          and_then (expect [SYMBOL] (Some '']'') st) (\<lambda>(_, st).
          and_then (push_symbol symbol st) (\<lambda>st.
          Inr (True, gen (write_arithmetic ''+'') st)))))
        else Inr (False, st)) (\<lambda>(is_array, st).
     and_then (expect [SYMBOL] (Some ''='') st) (\<lambda>(_, st).
     and_then (compile_expression n st) (\<lambda>st.
     and_then (expect [SYMBOL] (Some '';'') st) (\<lambda>(_, st).
     if is_array then
       let st = gen (write_pop ''temp'' 0) st;
           st = gen (write_pop ''pointer'' 1) st;
           st = gen (write_push ''temp'' 0) st;
           st = gen (write_pop ''that'' 0) st
       in Inr st
     else pop_symbol symbol st))))))"
| "compile_if 0 st = Inl OutOfFuel"
| "compile_if (Suc n) st =
     and_then (expect [KEYWORD] (Some ''if'') st) (\<lambda>(_, st).
     and_then (expect [SYMBOL] (Some ''('') st) (\<lambda>(_, st).
     and_then (compile_expression n st) (\<lambda>st.
     and_then (expect [SYMBOL] (Some '')'') st) (\<lambda>(_, st).
     case get_unique_label ''IF_FALSE'' (code_gen st) of (label_false, cg) \<Rightarrow>
     case get_unique_label ''IF_END'' cg of (label_end, cg) \<Rightarrow>
     let st = st\<lparr>code_gen := cg\<rparr>;
         st = gen (write_arithmetic ''~'') st;
         st = gen (write_if label_false) st
     in
     and_then (expect [SYMBOL] (Some ''{'') st) (\<lambda>(_, st).
     and_then (compile_statements n st) (\<lambda>st.
     and_then (expect [SYMBOL] (Some ''}'') st) (\<lambda>(_, st).
     let st = gen (write_goto label_end) st;
         st = gen (write_label label_false) st
     in
     and_then
       (if match [''else''] st then
          and_then (advance st) (\<lambda>st.
          and_then (expect [SYMBOL] (Some ''{'') st) (\<lambda>(_, st).
          and_then (compile_statements n st) (\<lambda>st.
          and_then (expect [SYMBOL] (Some ''}'') st) (\<lambda>(_, st). Inr st))))
        else Inr st) (\<lambda>st.
     Inr (gen (write_label label_end) st)))))))))"
| "compile_while 0 st = Inl OutOfFuel"
| "compile_while (Suc n) st =
     and_then (expect [KEYWORD] (Some ''while'') st) (\<lambda>(_, st).
     and_then (expect [SYMBOL] (Some ''('') st) (\<lambda>(_, st).
     case get_unique_label ''WHILE_LOOP'' (code_gen st) of (label_loop, cg) \<Rightarrow>
     case get_unique_label ''WHILE_END'' cg of (label_end, cg) \<Rightarrow>
     let st = st\<lparr>code_gen := cg\<rparr>;
         st = gen (write_label label_loop) st
     in
     and_then (compile_expression n st) (\<lambda>st.
     and_then (expect [SYMBOL] (Some '')'') st) (\<lambda>(_, st).
     let st = gen (write_arithmetic ''~'') st;
         st = gen (write_if label_end) st
     in
     and_then (expect [SYMBOL] (Some ''{'') st) (\<lambda>(_, st).
     and_then (compile_statements n st) (\<lambda>st.
     and_then (expect [SYMBOL] (Some ''}'') st) (\<lambda>(_, st).
     let st = gen (write_goto label_loop) st;
         st = gen (write_label label_end) st
     in Inr st)))))))"
| "compile_do 0 st = Inl OutOfFuel"
| "compile_do (Suc n) st =
     and_then (expect [KEYWORD] (Some ''do'') st) (\<lambda>(_, st).
     and_then (compile_subroutine_call n st) (\<lambda>st.
     let st = gen (write_pop ''temp'' 0) st in
     and_then (expect [SYMBOL] (Some '';'') st) (\<lambda>(_, st). Inr st)))"
| "compile_return 0 st = Inl OutOfFuel"
| "compile_return (Suc n) st =
     and_then (expect [KEYWORD] (Some ''return'') st) (\<lambda>(_, st).
     and_then
       (if \<not> match ['';''] st then compile_expression n st
        else Inr (gen (write_push ''constant'' 0) st)) (\<lambda>st.
     and_then (expect [SYMBOL] (Some '';'') st) (\<lambda>(_, st).
     Inr (gen write_return st))))"
| "compile_expression 0 st = Inl OutOfFuel"
| "compile_expression (Suc n) st =
     and_then (compile_term n st) (\<lambda>st. compile_expression_loop n st)"
| "compile_expression_loop 0 st = Inl OutOfFuel"
| "compile_expression_loop (Suc n) st =
     (if match [''+'', ''-'', ''*'', ''/'', ''&'', ''|'', ''<'', ''>'', ''=''] st then
        let op = tok_value (current_token st) in
        and_then (advance st) (\<lambda>st.
        and_then (compile_term n st) (\<lambda>st.
        compile_expression_loop n (gen (write_arithmetic op) st)))
      else Inr st)"
| "compile_term 0 st = Inl OutOfFuel"
| "compile_term (Suc n) st =
     (if tok_type (current_token st) = INT_CONST then
        and_then (python_int (tok_value (current_token st))) (\<lambda>v.
        advance (gen (write_push ''constant'' v) st))
      else if tok_type (current_token st) = STRING_CONST then
        let string_val = tok_value (current_token st);
            st = gen (write_push ''constant'' (length string_val)) st;
            st = gen (write_call ''String.new'' 1) st;
            st = gen (string_chars string_val) st
        in advance st
      else if match [''true'', ''false'', ''null'', ''this''] st then
        let keyword = tok_value (current_token st);
            st = (if keyword = ''true'' then
                    gen (write_arithmetic ''~'') (gen (write_push ''constant'' 1) st)
                  else if keyword \<in> set [''false'', ''null''] then
                    gen (write_push ''constant'' 0) st
                  else if keyword = ''this'' then
                    gen (write_push ''pointer'' 0) st
                  else st)
        in advance st
      else if match [''-'', ''~''] st then
        let op = tok_value (current_token st) in
        and_then (advance st) (\<lambda>st.
        and_then (compile_term n st) (\<lambda>st.
        Inr (gen (write_arithmetic (if op = ''-'' then ''-neg'' else ''~'')) st)))
      else if tok_type (current_token st) = IDENTIFIER then
        let ident = tok_value (current_token st) in
        and_then (advance st) (\<lambda>st.
        if match [''[''] st then
          let symbol = lookup ident (symbol_table st) in
          and_then (advance st) (\<lambda>st.
          and_then (compile_expression n st) (\<lambda>st.
          and_then (expect [SYMBOL] (Some '']'') st) (\<lambda>(_, st).
          and_then (push_symbol symbol st) (\<lambda>st.
          let st = gen (write_arithmetic ''+'') st;
              st = gen (write_pop ''pointer'' 1) st;
              st = gen (write_push ''that'' 0) st
          in Inr st))))
        else if match [''('', ''.''] st then
          and_then (step_back ident st) (\<lambda>st. compile_subroutine_call n st)
        else
          push_symbol (lookup ident (symbol_table st)) st)
      else if match [''(''] st then
        and_then (advance st) (\<lambda>st.
        and_then (compile_expression n st) (\<lambda>st.
        and_then (expect [SYMBOL] (Some '')'') st) (\<lambda>(_, st). Inr st)))
      else Inr st)"
| "compile_subroutine_call 0 st = Inl OutOfFuel"
| "compile_subroutine_call (Suc n) st =
     and_then (expect [IDENTIFIER] None st) (\<lambda>(tok, st).
     let name = tok_value tok in
     and_then
       (if match [''.''] st then
          and_then (advance st) (\<lambda>st.
          and_then (expect [IDENTIFIER] None st) (\<lambda>(mtok, st).
          let method = tok_value mtok in
          case lookup name (symbol_table st) of
            Some symbol \<Rightarrow>
              Inr (sym_type symbol @ ''.'' @ method, 1,
                   gen (write_push (segment_for (sym_kind symbol)) (sym_index symbol)) st)
          | None \<Rightarrow> Inr (name @ ''.'' @ method, 0, st)))
        else
          Inr (class_name st @ ''.'' @ name, 1, gen (write_push ''pointer'' 0) st))
       (\<lambda>(name, nargs, st).
     and_then (expect [SYMBOL] (Some ''('') st) (\<lambda>(_, st).
     and_then (compile_expression_list n st) (\<lambda>(count, st).
     and_then (expect [SYMBOL] (Some '')'') st) (\<lambda>(_, st).
     Inr (gen (write_call name (nargs + count)) st))))))"
| "compile_expression_list 0 st = Inl OutOfFuel"
| "compile_expression_list (Suc n) st =
     (if \<not> match ['')''] st then
        and_then (compile_expression n st) (\<lambda>st. compile_expression_list_loop n 1 st)
      else Inr (0, st))"
| "compile_expression_list_loop 0 count st = Inl OutOfFuel"
| "compile_expression_list_loop (Suc n) count st =
     (if match ['',''] st then
        and_then (advance st) (\<lambda>st.
        and_then (compile_expression n st) (\<lambda>st.
        compile_expression_list_loop n (count + 1) st))
      else Inr (count, st))"

text \<open>
  \<open>var_name_loop\<close> is the \<open>while True\<close> loop that \<open>compile_class_var_dec\<close> and
  \<open>compile_var_dec\<close> both contain: it defines one name per round, of the given type and
  kind. \<open>parameter_loop\<close> is the \<open>while True\<close> loop of \<open>compile_parameter_list\<close>.
\<close>

fun var_name_loop :: "nat \<Rightarrow> string \<Rightarrow> SymbolKind \<Rightarrow> Parser \<Rightarrow> error + Parser" where
  "var_name_loop 0 var_type kind st = Inl OutOfFuel"
| "var_name_loop (Suc n) var_type kind st =
     and_then (expect [IDENTIFIER] None st) (\<lambda>(tok, st).
     let var_name = tok_value tok;
         st = st\<lparr>symbol_table := define var_name var_type kind (symbol_table st)\<rparr>
     in if \<not> match ['',''] st then Inr st
        else and_then (advance st) (\<lambda>st. var_name_loop n var_type kind st))"

definition compile_class_var_dec :: "nat \<Rightarrow> Parser \<Rightarrow> error + Parser" where
  "compile_class_var_dec n st =
     (let kind = (if match [''static''] st then STATIC else FIELD) in
      and_then (advance st) (\<lambda>st.
      let var_type = tok_value (current_token st) in
      and_then (advance st) (\<lambda>st.
      and_then (var_name_loop n var_type kind st) (\<lambda>st.
      and_then (expect [SYMBOL] (Some '';'') st) (\<lambda>(_, st). Inr st)))))"

fun parameter_loop :: "nat \<Rightarrow> Parser \<Rightarrow> error + Parser" where
  "parameter_loop 0 st = Inl OutOfFuel"
| "parameter_loop (Suc n) st =
     (let param_type = tok_value (current_token st) in
      and_then (advance st) (\<lambda>st.
      and_then (expect [IDENTIFIER] None st) (\<lambda>(tok, st).
      let param_name = tok_value tok;
          st = st\<lparr>symbol_table := define param_name param_type ARG (symbol_table st)\<rparr>
      in if \<not> match ['',''] st then Inr st
         else and_then (advance st) (\<lambda>st. parameter_loop n st))))"

definition compile_parameter_list :: "nat \<Rightarrow> Parser \<Rightarrow> error + Parser" where
  "compile_parameter_list n st =
     (if \<not> match ['')''] st then parameter_loop n st else Inr st)"

definition compile_var_dec :: "nat \<Rightarrow> Parser \<Rightarrow> error + Parser" where
  "compile_var_dec n st =
     and_then (expect [KEYWORD] (Some ''var'') st) (\<lambda>(_, st).
     let var_type = tok_value (current_token st) in
     and_then (advance st) (\<lambda>st.
     and_then (var_name_loop n var_type VAR st) (\<lambda>st.
     and_then (expect [SYMBOL] (Some '';'') st) (\<lambda>(_, st). Inr st))))"

text \<open>
  \<open>var_dec_loop\<close> is the loop \<open>while self.match('var')\<close> of \<open>compile_subroutine_dec\<close>.
\<close>

fun var_dec_loop :: "nat \<Rightarrow> Parser \<Rightarrow> error + Parser" where
  "var_dec_loop 0 st = Inl OutOfFuel"
| "var_dec_loop (Suc n) st =
     (if match [''var''] st then
        and_then (compile_var_dec n st) (\<lambda>st. var_dec_loop n st)
      else Inr st)"

text \<open>
  \<open>count_kind kind d\<close> is \<open>sum(1 for s in d.values() if s.kind == kind)\<close>. The first
  assignment to \<open>nlocals\<close> in \<open>compile_subroutine_dec\<close> reads an attribute \<open>_self_\<close> that the
  integer \<open>var_count\<close> does not have, gives 0 and is overwritten by the second, which is
  the one kept here.
\<close>

definition count_kind :: "SymbolKind \<Rightarrow> (string \<times> Symbol) list \<Rightarrow> nat" where
  "count_kind kind d = length (filter (\<lambda>s. sym_kind s = kind) (map snd d))"

definition compile_subroutine_dec :: "nat \<Rightarrow> Parser \<Rightarrow> error + Parser" where
  "compile_subroutine_dec n st =
     (let subroutine_type = tok_value (current_token st) in
      and_then (advance st) (\<lambda>st.
      and_then (advance st) (\<lambda>st.
      and_then (expect [IDENTIFIER] None st) (\<lambda>(tok, st).
      let st = st\<lparr>subroutine_name := tok_value tok\<rparr> in
      and_then (expect [SYMBOL] (Some ''('') st) (\<lambda>(_, st).
      let st = st\<lparr>symbol_table := start_subroutine (symbol_table st)\<rparr>;
          st = (if subroutine_type = ''method''
                then st\<lparr>symbol_table := define ''this'' (class_name st) ARG (symbol_table st)\<rparr>
                else st)
      in
      and_then (compile_parameter_list n st) (\<lambda>st.
      and_then (expect [SYMBOL] (Some '')'') st) (\<lambda>(_, st).
      and_then (expect [SYMBOL] (Some ''{'') st) (\<lambda>(_, st).
      and_then (var_dec_loop n st) (\<lambda>st.
      let func_name = class_name st @ ''.'' @ subroutine_name st;
          nlocals = count_kind VAR (subroutine_symbols (symbol_table st));
          st = gen (write_function func_name nlocals) st;
          st = (if subroutine_type = ''method'' then
                  gen (write_pop ''pointer'' 0) (gen (write_push ''argument'' 0) st)
                else if subroutine_type = ''constructor'' then
                  let nfields = count_kind FIELD (class_symbols (symbol_table st));
                      st = gen (write_push ''constant'' nfields) st;
                      st = gen (write_call ''Memory.alloc'' 1) st
                  in gen (write_pop ''pointer'' 0) st
                else st)
      in
      and_then (compile_statements n st) (\<lambda>st.
      and_then (expect [SYMBOL] (Some ''}'') st) (\<lambda>(_, st). Inr st)))))))))))"

text \<open>
  \<open>class_var_dec_loop\<close> and \<open>subroutine_dec_loop\<close> are the two \<open>while\<close> loops of
  \<open>compile_class\<close>.
\<close>

fun class_var_dec_loop :: "nat \<Rightarrow> Parser \<Rightarrow> error + Parser" where
  "class_var_dec_loop 0 st = Inl OutOfFuel"
| "class_var_dec_loop (Suc n) st =
     (if match [''static'', ''field''] st then
        and_then (compile_class_var_dec n st) (\<lambda>st. class_var_dec_loop n st)
      else Inr st)"

fun subroutine_dec_loop :: "nat \<Rightarrow> Parser \<Rightarrow> error + Parser" where
  "subroutine_dec_loop 0 st = Inl OutOfFuel"
| "subroutine_dec_loop (Suc n) st =
     (if match [''constructor'', ''function'', ''method''] st then
        and_then (compile_subroutine_dec n st) (\<lambda>st. subroutine_dec_loop n st)
      else Inr st)"

definition compile_class :: "nat \<Rightarrow> Parser \<Rightarrow> error + Parser" where
  "compile_class n st =
     and_then (expect [KEYWORD] (Some ''class'') st) (\<lambda>(_, st).
     and_then (expect [IDENTIFIER] None st) (\<lambda>(tok, st).
     let st = st\<lparr>class_name := tok_value tok\<rparr> in
     and_then (expect [SYMBOL] (Some ''{'') st) (\<lambda>(_, st).
     let st = st\<lparr>code_gen := CodeGenerator_init (class_name st)\<rparr> in
     and_then (class_var_dec_loop n st) (\<lambda>st.
     and_then (subroutine_dec_loop n st) (\<lambda>st.
     and_then (expect [SYMBOL] (Some ''}'') st) (\<lambda>(_, st). Inr st))))))"

definition parse :: "nat \<Rightarrow> Token list \<Rightarrow> error + string" where
  "parse n toks =
     and_then (compile_class n (Parser_init toks)) (\<lambda>st. Inr (get_code (code_gen st)))"

section \<open>Compiling a file\<close>

text \<open>
  The file system is a map from paths to contents. \<open>compile_file\<close> returns the file system
  it leaves and the exception it raised, if any; reading a path that is not there raises
  \<open>IOError\<close>. The first argument is the budget of the parser.
\<close>

type_synonym file_system = "string \<rightharpoonup> string"

definition compile_file ::
  "nat \<Rightarrow> file_system \<Rightarrow> string \<Rightarrow> string \<Rightarrow> file_system \<times> error option" where
  "compile_file n fs input_file output_file =
     (case fs input_file of
        None \<Rightarrow> (fs, Some IOError)
      | Some code \<Rightarrow>
          (case parse n (tokenize code) of
             Inl e \<Rightarrow> (fs, Some e)
           | Inr vm_code \<Rightarrow> (fs(output_file \<mapsto> vm_code), None)))"

section \<open>Labels in the output\<close>

text \<open>
  The label commands of the output are \<open>label l\<close>, \<open>goto l\<close> and \<open>if-goto l\<close>, as
  \<open>write_label\<close>, \<open>write_goto\<close> and \<open>write_if\<close> write them. \<open>label_of cmd\<close> is the label
  of a label command, \<open>defined_labels out\<close> are the labels of the \<open>label\<close> commands of an
  output, in order, and \<open>used_labels out\<close> the labels of all its label commands.
  \<open>label_text prefix k\<close> is the label that \<open>get_unique_label prefix\<close> returns when the
  counter is \<open>k\<close>, and \<open>label_prefixes\<close> are the four prefixes that \<open>compile_if\<close> and
  \<open>compile_while\<close> pass to it.
\<close>

definition label_prefixes :: "string list" where
  "label_prefixes = [''IF_FALSE'', ''IF_END'', ''WHILE_LOOP'', ''WHILE_END'']"

definition label_text :: "string \<Rightarrow> nat \<Rightarrow> string" where
  "label_text prefix k = prefix @ ''_'' @ str_nat k"

definition label_of :: "string \<Rightarrow> string option" where
  "label_of cmd =
     (if take 6 cmd = ''label '' then Some (drop 6 cmd)
      else if take 5 cmd = ''goto '' then Some (drop 5 cmd)
      else if take 8 cmd = ''if-goto '' then Some (drop 8 cmd)
      else None)"

definition defined_labels :: "string list \<Rightarrow> string list" where
  "defined_labels out = map (drop 6) (filter (\<lambda>cmd. take 6 cmd = ''label '') out)"

definition used_labels :: "string list \<Rightarrow> string list" where
  "used_labels out = List.map_filter label_of out"

text \<open>
  \<open>numbered D ls\<close>: every label of \<open>ls\<close> is one of the four prefixes, an underscore and a
  number of \<open>D\<close>. A command is \<open>plain\<close> when it is no label command. \<open>bump\<close> is the
  increment of the counter in \<open>get_unique_label\<close>.
\<close>

definition numbered :: "nat set \<Rightarrow> string list \<Rightarrow> bool" where
  "numbered D ls = (\<forall>l \<in> set ls. \<exists>p \<in> set label_prefixes. \<exists>k \<in> D. l = label_text p k)"

definition plain :: "string \<Rightarrow> bool" where
  "plain cmd \<longleftrightarrow> label_of cmd = None"

definition bump :: "CodeGenerator \<Rightarrow> CodeGenerator" where
  "bump cg = cg\<lparr>label_counter := label_counter cg + 1\<rparr>"

text \<open>
  \<open>emits cg cg'\<close> relates the code generator before and after a piece of compilation: the
  counter has not gone down, the output has only been extended, the labels that the new
  commands define are distinct and numbered from the old counter up to the new one, and
  the labels that the new commands mention are numbered below the new counter.

  \<open>same st' st\<close>, \<open>keeps st' st\<close> and \<open>frame st st'\<close> say which fields of the parser a
  procedure leaves as they were: \<open>same\<close> all but the token cursor, \<open>keeps\<close> all but the
  token cursor and the symbol table, \<open>frame\<close> all but the token cursor and the code
  generator, which is related by \<open>emits\<close>.
\<close>

definition emits :: "CodeGenerator \<Rightarrow> CodeGenerator \<Rightarrow> bool" where
  "emits cg cg' \<longleftrightarrow>
     label_counter cg \<le> label_counter cg' \<and>
     (\<exists>new. output cg' = output cg @ new \<and>
        numbered {label_counter cg..<label_counter cg'} (defined_labels new) \<and>
        distinct (defined_labels new) \<and>
        numbered {..<label_counter cg'} (used_labels new))"

definition same :: "Parser \<Rightarrow> Parser \<Rightarrow> bool" where
  "same st' st \<longleftrightarrow>
     symbol_table st' = symbol_table st \<and> class_name st' = class_name st \<and>
     subroutine_name st' = subroutine_name st \<and> code_gen st' = code_gen st"

definition keeps :: "Parser \<Rightarrow> Parser \<Rightarrow> bool" where
  "keeps st' st \<longleftrightarrow>
     class_name st' = class_name st \<and> subroutine_name st' = subroutine_name st \<and>
     code_gen st' = code_gen st"

definition frame :: "Parser \<Rightarrow> Parser \<Rightarrow> bool" where
  "frame st st' \<longleftrightarrow>
     symbol_table st' = symbol_table st \<and> class_name st' = class_name st \<and>
     subroutine_name st' = subroutine_name st \<and> emits (code_gen st) (code_gen st')"

section \<open>The tokenizer raises no error\<close>

lemma not_slash_no_comment:
  assumes "c \<noteq> CHR ''/''"
  shows "\<not> (cs \<noteq> [] \<and> take 2 (c # cs) = ''//'')"
    and "\<not> (cs \<noteq> [] \<and> take 2 (c # cs) = ''/*'')"
  using assms by auto

lemma skip_nonempty:
  assumes "skip_whitespace_and_comments cs line = (c # rest, line')"
  shows "cs \<noteq> []"
  using assms by (auto simp: skip_whitespace_and_comments.simps(1))

lemma stray_step:
  assumes "skip_whitespace_and_comments cs line = (c # rest, line')"
    and "\<not> isspace c" and "c \<noteq> CHR 0x22" and "\<not> isdigit c"
    and "\<not> isalpha c" and "c \<noteq> CHR ''_''" and "c \<notin> set SYMBOLS"
  shows "tokenize_loop cs line toks = tokenize_loop rest line' toks"
  by (subst tokenize_loop.simps) (simp add: assms skip_nonempty [OF assms(1)])

lemma stray_head:
  assumes "\<not> isspace c" and "c \<notin> set SYMBOLS"
  shows "skip_whitespace_and_comments (c # cs) line = (c # cs, line)"
proof -
  from assms(2) have ns: "c \<noteq> CHR ''/''" by (auto simp: SYMBOLS_def)
  show ?thesis
    by (rule skip_stop [OF assms(1) not_slash_no_comment(1) [OF ns]
          not_slash_no_comment(2) [OF ns]])
qed

text \<open>
  Claim C5, as amended. A character that is not whitespace, not a double quote, not a
  digit, not a letter, not an underscore and not in the symbol set raises no lexical error.
  Whenever the main loop of the scanner, having skipped whitespace and comments, stands on
  such a character, it drops that one character and goes on scanning at the next one, with
  the line counter and the tokens collected so far unchanged. In particular this holds
  when the character is the first of the unread text, and a text that begins with such a
  character tokenizes as the text after it.
\<close>

theorem stray_character_skipped:
  assumes "\<not> isspace c" and "c \<noteq> CHR 0x22" and "\<not> isdigit c"
    and "\<not> isalpha c" and "c \<noteq> CHR ''_''" and "c \<notin> set SYMBOLS"
  shows "(skip_whitespace_and_comments cs line = (c # rest, line') \<longrightarrow>
            tokenize_loop cs line toks = tokenize_loop rest line' toks)
       \<and> tokenize_loop (c # rest) line toks = tokenize_loop rest line toks
       \<and> tokenize (c # rest) = tokenize rest"
  unfolding tokenize_def
  using stray_step [OF _ assms] stray_head [OF assms(1) assms(6)] by blast

theorem stray_character_skipped_witness:
  "skip_whitespace_and_comments '' /* c */ #b'' 1 = (''#b'', 1)
   \<and> tokenize_loop '' /* c */ #b'' 1 [\<lparr>tok_type = IDENTIFIER, tok_value = ''a'', tok_line = 1\<rparr>]
       = tokenize_loop ''b'' 1 [\<lparr>tok_type = IDENTIFIER, tok_value = ''a'', tok_line = 1\<rparr>]
   \<and> tokenize ''#b'' = tokenize ''b''"
proof -
  have s: "skip_whitespace_and_comments '' /* c */ #b'' 1 = (''#b'', 1)"
    by code_simp
  from s stray_character_skipped [of "CHR ''#''" "'' /* c */ #b''" 1 "''b''" 1
      "[\<lparr>tok_type = IDENTIFIER, tok_value = ''a'', tok_line = 1\<rparr>]"]
  show ?thesis
    by (simp add: isspace_def isdigit_def isalpha_def SYMBOLS_def)
qed

text \<open>
  The claim as first stated fails on the text \<open>a#b\<close>: the tokenizer returns two
  identifiers and the end marker.
\<close>

theorem stray_character_counterexample:
  "tokenize ''a#b'' =
     [\<lparr>tok_type = IDENTIFIER, tok_value = ''a'', tok_line = 1\<rparr>,
      \<lparr>tok_type = IDENTIFIER, tok_value = ''b'', tok_line = 1\<rparr>,
      \<lparr>tok_type = EOF, tok_value = [], tok_line = 1\<rparr>]"
  by code_simp

lemma isdigit_facts:
  assumes "isdigit c"
  shows "\<not> isspace c" and "c \<noteq> CHR ''/''" and "c \<noteq> CHR 0x22"
  using assms by (auto simp: isdigit_def isspace_def Let_def)

lemma digits_step:
  assumes sk: "skip_whitespace_and_comments cs line = (ds @ rest, line')"
    and "ds \<noteq> []" and "list_all isdigit ds" and "rest = [] \<or> \<not> isdigit (hd rest)"
  shows "tokenize_loop cs line toks =
         tokenize_loop rest line'
           (toks @ [\<lparr>tok_type = INT_CONST, tok_value = ds, tok_line = line'\<rparr>])"
proof -
  from assms(2) obtain d ds' where ds: "ds = d # ds'" by (cases ds) auto
  with assms(3) have d: "isdigit d" by simp
  have s: "skip_whitespace_and_comments cs line = (d # ds' @ rest, line')"
    using sk by (simp add: ds)
  have tw: "takeWhile isdigit (ds @ rest) = ds"
    using assms(3,4)
    by (cases rest) (auto simp: list_all_iff takeWhile_append2 takeWhile_eq_all_conv)
  have dw: "dropWhile isdigit (ds @ rest) = rest"
    using assms(3,4) by (cases rest) (auto simp: list_all_iff dropWhile_append2)
  show ?thesis
    apply (subst tokenize_loop.simps)
    using tw dw d isdigit_facts(3) [OF d] skip_nonempty [OF s]
    apply (simp add: s read_number_def ds del: takeWhile.simps dropWhile.simps)
    done
qed

lemma digit_head:
  assumes "ds \<noteq> []" and "list_all isdigit ds"
  shows "skip_whitespace_and_comments (ds @ rest) line = (ds @ rest, line)"
proof -
  from assms(1) obtain d ds' where ds: "ds = d # ds'" by (cases ds) auto
  with assms(2) have d: "isdigit d" by simp
  show ?thesis
    unfolding ds append_Cons
    by (rule skip_stop [OF isdigit_facts(1) [OF d]
          not_slash_no_comment(1) [OF isdigit_facts(2) [OF d]]
          not_slash_no_comment(2) [OF isdigit_facts(2) [OF d]]])
qed

text \<open>
  Claim C6, as amended. An integer literal is a maximal run of digits on which the main
  loop of the scanner stands, having skipped whitespace and comments (in particular a
  maximal run of digits that begins the unread text). Every integer literal becomes one
  \<open>INT_CONST\<close> token whose lexeme is the whole run, whatever its value, and scanning goes
  on after the run: the tokenizer makes no range check and raises no error.
\<close>

theorem integer_literal_any_value:
  assumes "ds \<noteq> []" and "list_all isdigit ds" and "rest = [] \<or> \<not> isdigit (hd rest)"
  shows "(skip_whitespace_and_comments cs line = (ds @ rest, line') \<longrightarrow>
            tokenize_loop cs line toks =
            tokenize_loop rest line'
              (toks @ [\<lparr>tok_type = INT_CONST, tok_value = ds, tok_line = line'\<rparr>]))
       \<and> tokenize_loop (ds @ rest) line toks =
           tokenize_loop rest line
             (toks @ [\<lparr>tok_type = INT_CONST, tok_value = ds, tok_line = line\<rparr>])"
  using digits_step [OF _ assms] digit_head [OF assms(1,2)] by blast

theorem integer_literal_any_value_witness:
  "skip_whitespace_and_comments ('' // n'' @ [newline] @ ''40000;'') 1 = (''40000'' @ '';'', 2)
   \<and> tokenize_loop ('' // n'' @ [newline] @ ''40000;'') 1 [] =
       tokenize_loop '';'' 2 [\<lparr>tok_type = INT_CONST, tok_value = ''40000'', tok_line = 2\<rparr>]
   \<and> tokenize_loop (''40000'' @ '';'') 1 [] =
       tokenize_loop '';'' 1 [\<lparr>tok_type = INT_CONST, tok_value = ''40000'', tok_line = 1\<rparr>]"
proof -
  have s: "skip_whitespace_and_comments ('' // n'' @ [newline] @ ''40000;'') 1
             = (''40000'' @ '';'', 2)"
    by code_simp
  from s integer_literal_any_value [of "''40000''" "'';''" "'' // n'' @ [newline] @ ''40000;''"
      1 2 "[]"]
  show ?thesis
    by (simp add: isdigit_def)
qed

text \<open>
  The claim as first stated fails on the text \<open>32768\<close>: it tokenizes, as one integer
  constant.
\<close>

theorem integer_range_counterexample:
  "tokenize ''32768'' =
     [\<lparr>tok_type = INT_CONST, tok_value = ''32768'', tok_line = 1\<rparr>,
      \<lparr>tok_type = EOF, tok_value = [], tok_line = 1\<rparr>]"
  by code_simp

section \<open>Defining a name that is bound\<close>

text \<open>
  Claim C7, as amended. \<open>define\<close> on a name that its scope already binds (the class scope
  for \<open>STATIC\<close> and \<open>FIELD\<close>, the subroutine scope for \<open>ARG\<close> and \<open>VAR\<close>) re-binds the
  name: the scope keeps its keys, the name now maps to a new symbol of the given type and
  kind whose index is the counter of the kind, and that counter goes up by one. No error
  is raised.
\<close>

theorem define_rebinds:
  assumes "map_of (if kind \<in> set [STATIC, FIELD] then class_symbols t
                   else subroutine_symbols t) name = Some old"
  shows "map_of (if kind \<in> set [STATIC, FIELD] then class_symbols (define name type kind t)
                 else subroutine_symbols (define name type kind t)) name
           = Some \<lparr>sym_name = name, sym_type = type, sym_kind = kind,
                    sym_index = fst (get_count kind t)\<rparr>
       \<and> map fst (if kind \<in> set [STATIC, FIELD] then class_symbols (define name type kind t)
                   else subroutine_symbols (define name type kind t))
           = map fst (if kind \<in> set [STATIC, FIELD] then class_symbols t
                      else subroutine_symbols t)
       \<and> fst (get_count kind (define name type kind t)) = fst (get_count kind t) + 1"
proof -
  from assms have "name \<in> fst ` set (if kind \<in> set [STATIC, FIELD] then class_symbols t
                   else subroutine_symbols t)"
    by (metis map_of_eq_None_iff option.distinct(1))
  then show ?thesis
    by (cases kind) (simp_all add: define_def update_conv' update_keys)
qed

theorem define_rebinds_witness:
  "map_of (subroutine_symbols
       (define ''x'' ''boolean'' VAR (define ''x'' ''int'' VAR SymbolTable_init))) ''x''
     = Some \<lparr>sym_name = ''x'', sym_type = ''boolean'', sym_kind = VAR, sym_index = 1\<rparr>"
  using define_rebinds [of VAR "define ''x'' ''int'' VAR SymbolTable_init" "''x''"
      "\<lparr>sym_name = ''x'', sym_type = ''int'', sym_kind = VAR, sym_index = 0\<rparr>" "''boolean''"]
  by (simp add: define_def SymbolTable_init_def)

text \<open>
  The claim as first stated fails on a class that declares the local \<open>x\<close> twice: it
  compiles, and the reference to \<open>x\<close> resolves to the second binding, at index 1.
\<close>

theorem redeclaration_counterexample:
  "parse 30 (tokenize ''class A { function int f() { var int x, x; return x; } }'') =
     Inr (join [newline] [''function A.f 1'', ''push local 1'', ''return''])"
  by code_simp

section \<open>Terms\<close>

text \<open>
  Claim C1, evaluated on the code. For the keyword constant \<open>true\<close> the compiler emits
  \<open>push constant 1\<close> followed by \<open>not\<close>, not \<open>push constant 0\<close> followed by \<open>not\<close>.
\<close>

theorem true_constant_emission:
  "parse 30 (tokenize ''class A { function boolean f() { return true; } }'') =
     Inr (join [newline] [''function A.f 0'', ''push constant 1'', ''not'', ''return''])"
  by code_simp

text \<open>
  Claim C10. When \<open>compile_term\<close> is called on a current token that begins no term (its
  type is not integer constant, string constant or identifier, and its lexeme is none of
  \<open>true\<close>, \<open>false\<close>, \<open>null\<close>, \<open>this\<close>, \<open>-\<close>, \<open>~\<close>, \<open>(\<close>), it returns the parser unchanged:
  no token is consumed, nothing is emitted, no error is raised.
\<close>

theorem compile_term_no_term_start:
  assumes "tok_type (current_token st) \<notin> {INT_CONST, STRING_CONST, IDENTIFIER}"
    and "tok_value (current_token st) \<notin>
           set [''true'', ''false'', ''null'', ''this'', ''-'', ''~'', ''('']"
  shows "compile_term (Suc n) st = Inr st"
  using assms by (simp add: match_def)

theorem compile_term_no_term_start_witness:
  "compile_term (Suc 0) (Parser_init [\<lparr>tok_type = SYMBOL, tok_value = '';'', tok_line = 1\<rparr>])
     = Inr (Parser_init [\<lparr>tok_type = SYMBOL, tok_value = '';'', tok_line = 1\<rparr>])"
  using compile_term_no_term_start
    [of "Parser_init [\<lparr>tok_type = SYMBOL, tok_value = '';'', tok_line = 1\<rparr>]" 0]
  by (simp add: Parser_init_def)

section \<open>A failed compilation writes no file\<close>

text \<open>
  Claim C9. When \<open>compile_file\<close> raises an error, whichever it is, the file system is as it
  was before the call: the output file is not written and the emitted instructions are
  dropped.
\<close>

theorem compile_file_error_no_write:
  assumes "snd (compile_file n fs input_file output_file) = Some e"
  shows "fst (compile_file n fs input_file output_file) = fs"
  using assms by (auto simp: compile_file_def split: option.splits sum.splits)

theorem compile_file_error_no_write_witness:
  "snd (compile_file 30 [''A.jack'' \<mapsto> ''class A { function void f() { return 1 } }'']
          ''A.jack'' ''A.vm'') = Some SyntaxError
   \<and> fst (compile_file 30 [''A.jack'' \<mapsto> ''class A { function void f() { return 1 } }'']
          ''A.jack'' ''A.vm'')
       = [''A.jack'' \<mapsto> ''class A { function void f() { return 1 } }'']"
proof -
  have h: "snd (compile_file 30 [''A.jack'' \<mapsto> ''class A { function void f() { return 1 } }'']
          ''A.jack'' ''A.vm'') = Some SyntaxError"
    by code_simp
  from h compile_file_error_no_write [OF h] show ?thesis by blast
qed

section \<open>Facts about labels\<close>

text \<open>
  The decimal rendering of the counter is injective and holds no underscore, so the number
  of a label is determined by its text: labels with different numbers are different,
  whatever their prefixes.
\<close>

lemma digit_char_of_char: "d < 10 \<Longrightarrow> (of_char (digit_char d) :: nat) = 48 + d"
  by (simp add: digit_char_def)

lemma str_nat_not_empty: "str_nat n \<noteq> []"
  by (subst str_nat.simps) simp

lemma str_nat_digits: "c \<in> set (str_nat n) \<Longrightarrow> is_ascii_digit c"
proof (induction n arbitrary: c rule: str_nat.induct)
  case (1 n)
  show ?case
  proof (cases "n < 10")
    case True
    with 1(2) have "c = digit_char n" by (subst (asm) str_nat.simps) simp
    with True show ?thesis by (simp add: is_ascii_digit_def digit_char_of_char)
  next
    case False
    with 1(2) have "c \<in> set (str_nat (n div 10)) \<or> c = digit_char (n mod 10)"
      by (subst (asm) str_nat.simps) auto
    then show ?thesis
    proof
      assume "c \<in> set (str_nat (n div 10))"
      with 1(1) [OF False] show ?thesis .
    next
      assume "c = digit_char (n mod 10)"
      then show ?thesis by (simp add: is_ascii_digit_def digit_char_of_char)
    qed
  qed
qed

lemma str_nat_value:
  "foldl (\<lambda>acc c. 10 * acc + ((of_char c :: nat) - 48)) 0 (str_nat n) = n"
proof (induction n rule: str_nat.induct)
  case (1 n)
  show ?case
  proof (cases "n < 10")
    case True
    then show ?thesis by (subst str_nat.simps) (simp add: digit_char_of_char)
  next
    case False
    with 1 [OF False] show ?thesis
      by (subst str_nat.simps) (simp add: digit_char_of_char)
  qed
qed

lemma str_nat_inject:
  assumes "str_nat m = str_nat n"
  shows "m = n"
proof -
  have "m = foldl (\<lambda>acc c. 10 * acc + ((of_char c :: nat) - 48)) 0 (str_nat m)"
    by (simp only: str_nat_value)
  also have "\<dots> = foldl (\<lambda>acc c. 10 * acc + ((of_char c :: nat) - 48)) 0 (str_nat n)"
    by (simp only: assms)
  also have "\<dots> = n"
    by (rule str_nat_value)
  finally show ?thesis .
qed

lemma underscore_not_digit: "CHR ''_'' \<notin> set (str_nat n)"
proof
  assume "CHR ''_'' \<in> set (str_nat n)"
  then have "is_ascii_digit CHR ''_''" by (rule str_nat_digits)
  then show False by (simp add: is_ascii_digit_def)
qed

lemma takeWhile_to_separator:
  assumes "u \<notin> set d"
  shows "takeWhile (\<lambda>x. x \<noteq> u) (rev (xs @ u # d)) = rev d"
proof -
  have "takeWhile (\<lambda>x. x \<noteq> u) (rev d @ u # rev xs)
      = rev d @ takeWhile (\<lambda>x. x \<noteq> u) (u # rev xs)"
    by (rule takeWhile_append2) (use assms in auto)
  then show ?thesis by simp
qed

lemma after_last_separator:
  assumes "xs @ u # d = xs' @ u # d'" and "u \<notin> set d" and "u \<notin> set d'"
  shows "d = d'"
proof -
  have "rev d = takeWhile (\<lambda>x. x \<noteq> u) (rev (xs @ u # d))"
    by (simp only: takeWhile_to_separator [OF assms(2)])
  also have "\<dots> = takeWhile (\<lambda>x. x \<noteq> u) (rev (xs' @ u # d'))"
    by (simp only: assms(1))
  also have "\<dots> = rev d'"
    by (simp only: takeWhile_to_separator [OF assms(3)])
  finally show ?thesis by simp
qed

lemma label_text_number:
  assumes "label_text p k = label_text p' k'"
  shows "k = k'"
proof -
  from assms have "p @ CHR ''_'' # str_nat k = p' @ CHR ''_'' # str_nat k'"
    by (simp add: label_text_def)
  then have "str_nat k = str_nat k'"
    by (rule after_last_separator) (rule underscore_not_digit)+
  then show ?thesis by (rule str_nat_inject)
qed

lemma and_then_Inr:
  "(and_then m f = Inr y) \<longleftrightarrow> (\<exists>x. m = Inr x \<and> f x = Inr y)"
  by (cases m) (auto simp: and_then_def)

lemma advance_same:
  assumes "advance st = Inr st'"
  shows "same st' st"
  using assms by (auto simp: same_def advance_def and_then_Inr split: if_splits)

lemma expect_same:
  assumes "expect types val st = Inr (tok, st')"
  shows "same st' st"
  using assms advance_same
  by (auto simp: expect_def and_then_Inr split: if_splits)

lemma step_back_same:
  assumes "step_back ident st = Inr st'"
  shows "same st' st"
  using assms by (auto simp: same_def step_back_def Let_def and_then_Inr)

lemma defined_labels_simps [simp]:
  "defined_labels [] = []"
  "defined_labels (xs @ ys) = defined_labels xs @ defined_labels ys"
  by (simp_all add: defined_labels_def)

lemma used_labels_simps [simp]:
  "used_labels [] = []"
  "used_labels (xs @ ys) = used_labels xs @ used_labels ys"
  by (simp_all add: used_labels_def map_filter_def)

lemma numbered_simps [simp]:
  "numbered D []"
  "numbered D (xs @ ys) \<longleftrightarrow> numbered D xs \<and> numbered D ys"
  by (auto simp: numbered_def)

lemma numbered_mono: "numbered A ls \<Longrightarrow> A \<subseteq> B \<Longrightarrow> numbered B ls"
  unfolding numbered_def by blast

lemma numbered_single:
  "p \<in> set label_prefixes \<Longrightarrow> k \<in> D \<Longrightarrow> numbered D [label_text p k]"
  unfolding numbered_def by auto

lemma numbered_notin:
  assumes "numbered A ls" and "k \<notin> A"
  shows "label_text p k \<notin> set ls"
proof
  assume "label_text p k \<in> set ls"
  with assms(1) obtain p' k' where "k' \<in> A" and "label_text p k = label_text p' k'"
    unfolding numbered_def by blast
  with label_text_number [of p k p' k'] assms(2) show False by simp
qed

lemma numbered_disjoint:
  assumes "numbered A xs" and "numbered B ys" and "A \<inter> B = {}"
  shows "set xs \<inter> set ys = {}"
proof (rule ccontr)
  assume "set xs \<inter> set ys \<noteq> {}"
  then obtain l where "l \<in> set xs" and "l \<in> set ys" by blast
  from assms(1) \<open>l \<in> set xs\<close> obtain p k where "k \<in> A" and l: "l = label_text p k"
    unfolding numbered_def by blast
  with assms(3) have "k \<notin> B" by blast
  from numbered_notin [OF assms(2) this] l \<open>l \<in> set ys\<close> show False by simp
qed

lemma label_cmds [simp]:
  "defined_labels [''label '' @ l] = [l]" "used_labels [''label '' @ l] = [l]"
  "defined_labels [''goto '' @ l] = []" "used_labels [''goto '' @ l] = [l]"
  "defined_labels [''if-goto '' @ l] = []" "used_labels [''if-goto '' @ l] = [l]"
  by (simp_all add: defined_labels_def used_labels_def map_filter_def label_of_def)

lemma plain_labels [simp]:
  "plain cmd \<Longrightarrow> defined_labels [cmd] = []"
  "plain cmd \<Longrightarrow> used_labels [cmd] = []"
  by (auto simp: plain_def defined_labels_def used_labels_def map_filter_def label_of_def
      split: if_splits)

lemma plain_cmds:
  "plain (''push '' @ x)" "plain (''pop '' @ x)" "plain (''call '' @ x)"
  "plain (''function '' @ x)" "plain ''return''"
  by (simp_all add: plain_def label_of_def)

lemma plain_operator:
  "op \<in> set [''+'', ''-'', ''*'', ''/'', ''&'', ''|'', ''<'', ''>'', ''='', ''~'', ''-neg'']
   \<Longrightarrow> plain (case map_of op_map op of Some cmd \<Rightarrow> cmd | None \<Rightarrow> op)"
  by (auto simp: op_map_def plain_def label_of_def)

lemma emits_refl: "emits cg cg"
  by (simp add: emits_def)

lemma emits_trans:
  assumes "emits a b" and "emits b c"
  shows "emits a c"
proof -
  from assms(1) obtain n1 where 1: "output b = output a @ n1"
    "numbered {label_counter a..<label_counter b} (defined_labels n1)"
    "distinct (defined_labels n1)" "numbered {..<label_counter b} (used_labels n1)"
    "label_counter a \<le> label_counter b"
    unfolding emits_def by blast
  from assms(2) obtain n2 where 2: "output c = output b @ n2"
    "numbered {label_counter b..<label_counter c} (defined_labels n2)"
    "distinct (defined_labels n2)" "numbered {..<label_counter c} (used_labels n2)"
    "label_counter b \<le> label_counter c"
    unfolding emits_def by blast
  have d: "set (defined_labels n1) \<inter> set (defined_labels n2) = {}"
    by (rule numbered_disjoint [OF 1(2) 2(2)]) auto
  have "numbered {label_counter a..<label_counter c} (defined_labels n1)"
    by (rule numbered_mono [OF 1(2)]) (use 2(5) in auto)
  moreover have "numbered {label_counter a..<label_counter c} (defined_labels n2)"
    by (rule numbered_mono [OF 2(2)]) (use 1(5) in auto)
  moreover have "numbered {..<label_counter c} (used_labels n1)"
    by (rule numbered_mono [OF 1(4)]) (use 2(5) in auto)
  ultimately have "output c = output a @ (n1 @ n2) \<and>
        numbered {label_counter a..<label_counter c} (defined_labels (n1 @ n2)) \<and>
        distinct (defined_labels (n1 @ n2)) \<and>
        numbered {..<label_counter c} (used_labels (n1 @ n2))"
    using 1(1,3) 2(1,3,4) d by simp
  then have "\<exists>new. output c = output a @ new \<and>
        numbered {label_counter a..<label_counter c} (defined_labels new) \<and>
        distinct (defined_labels new) \<and>
        numbered {..<label_counter c} (used_labels new)"
    by (rule exI)
  with 1(5) 2(5) show ?thesis
    unfolding emits_def by simp
qed

lemma emits_write_plain: "plain cmd \<Longrightarrow> emits cg (write cmd cg)"
  by (simp add: emits_def write_def)

lemma frame_refl: "frame st st"
  by (simp add: frame_def emits_refl)

lemma frame_trans: "frame a b \<Longrightarrow> frame b c \<Longrightarrow> frame a c"
  unfolding frame_def using emits_trans by auto

lemma frame_cong:
  assumes "same s' s"
  shows "frame a s' = frame a s"
  using assms by (simp add: frame_def same_def)

lemma same_gen: "same s' s \<Longrightarrow> same (gen f s') (gen f s)"
  by (simp add: same_def gen_def)

lemma same_fwd: "same s' s \<Longrightarrow> same s' s \<and> (\<forall>a. frame a s' = frame a s)"
  using frame_cong by blast

lemmas advance_fwd = advance_same [THEN same_fwd]
lemmas expect_fwd = expect_same [THEN same_fwd]
lemmas step_back_fwd = step_back_same [THEN same_fwd]

lemma frame_gen:
  assumes "\<And>cg. f cg = write cmd cg" and "plain cmd" and "frame a s"
  shows "frame a (gen f s)"
proof -
  have "frame s (gen f s)"
    using emits_write_plain [OF assms(2)] by (simp add: frame_def gen_def assms(1))
  with assms(3) show ?thesis by (rule frame_trans)
qed

lemma frame_write_push [simp]: "frame a s \<Longrightarrow> frame a (gen (write_push seg i) s)"
  using frame_gen [of "write_push seg i" "''push '' @ seg @ '' '' @ str_nat i" a s]
    plain_cmds(1) [of "seg @ '' '' @ str_nat i"]
  by (simp add: write_push_def)

lemma frame_write_pop [simp]: "frame a s \<Longrightarrow> frame a (gen (write_pop seg i) s)"
  using frame_gen [of "write_pop seg i" "''pop '' @ seg @ '' '' @ str_nat i" a s]
    plain_cmds(2) [of "seg @ '' '' @ str_nat i"]
  by (simp add: write_pop_def)

lemma frame_write_call [simp]: "frame a s \<Longrightarrow> frame a (gen (write_call name k) s)"
  using frame_gen [of "write_call name k" "''call '' @ name @ '' '' @ str_nat k" a s]
    plain_cmds(3) [of "name @ '' '' @ str_nat k"]
  by (simp add: write_call_def)

lemma frame_write_function [simp]:
  "frame a s \<Longrightarrow> frame a (gen (write_function name k) s)"
  using frame_gen [of "write_function name k" "''function '' @ name @ '' '' @ str_nat k" a s]
    plain_cmds(4) [of "name @ '' '' @ str_nat k"]
  by (simp add: write_function_def)

lemma frame_write_return [simp]: "frame a s \<Longrightarrow> frame a (gen write_return s)"
  using frame_gen [of write_return "''return''" a s] plain_cmds(5)
  by (simp add: write_return_def)

lemma frame_write_arithmetic [simp]:
  assumes "op \<in> set [''+'', ''-'', ''*'', ''/'', ''&'', ''|'', ''<'', ''>'', ''='', ''~'', ''-neg'']"
    and "frame a s"
  shows "frame a (gen (write_arithmetic op) s)"
  using frame_gen [of "write_arithmetic op"
      "case map_of op_map op of Some cmd \<Rightarrow> cmd | None \<Rightarrow> op" a s]
    plain_operator [OF assms(1)] assms(2)
  by (simp add: write_arithmetic_def)

lemma string_chars_emits: "emits cg (string_chars s cg)"
proof (induction s arbitrary: cg)
  case Nil
  show ?case by (simp add: string_chars_def emits_refl)
next
  case (Cons c s)
  have "emits cg (write_call ''String.appendChar'' 2 (write_push ''constant'' (of_char c) cg))"
    unfolding write_call_def write_push_def
    using emits_trans [OF emits_write_plain emits_write_plain] plain_cmds(1,3) by blast
  from emits_trans [OF this Cons]
  show ?case by (simp add: string_chars_def)
qed

lemma frame_string_chars [simp]: "frame a s \<Longrightarrow> frame a (gen (string_chars v) s)"
proof -
  have "frame s (gen (string_chars v) s)"
    using string_chars_emits by (simp add: frame_def gen_def)
  then show "frame a s \<Longrightarrow> frame a (gen (string_chars v) s)"
    using frame_trans by blast
qed

lemma push_symbol_fwd: "push_symbol symbol s = Inr s' \<Longrightarrow> \<forall>a. frame a s \<longrightarrow> frame a s'"
  by (auto simp: push_symbol_def split: option.splits)

lemma pop_symbol_fwd: "pop_symbol symbol s = Inr s' \<Longrightarrow> \<forall>a. frame a s \<longrightarrow> frame a s'"
  by (auto simp: pop_symbol_def split: option.splits)

lemmas fwd_rules = advance_fwd expect_fwd step_back_fwd push_symbol_fwd pop_symbol_fwd

lemma get_unique_label_bump:
  "get_unique_label prefix cg = (label_text prefix (label_counter cg), bump cg)"
  by (simp add: get_unique_label_def label_text_def bump_def)

lemma bump_fields [simp]:
  "label_counter (bump cg) = Suc (label_counter cg)" "output (bump cg) = output cg"
  by (simp_all add: bump_def)

section \<open>The commands of an if and of a while statement\<close>

text \<open>
  An \<open>if\<close> or \<open>while\<close> statement takes two numbers from the counter before its body is
  compiled; the labels of the body are numbered above them.
\<close>

lemma emits_if_block:
  assumes t: "emits (write (''if-goto '' @ label_text p1 k) (write c0 (bump (bump b)))) c"
    and e: "emits (write (''label '' @ label_text p1 k) (write (''goto '' @ label_text p2 (Suc k)) c)) d"
    and k: "k = label_counter b" and c0: "plain c0"
    and p: "p1 \<in> set label_prefixes" "p2 \<in> set label_prefixes"
  shows "emits b (write (''label '' @ label_text p2 (Suc k)) d)"
proof -
  from t obtain n1 where 1: "output c = output b @ [c0, ''if-goto '' @ label_text p1 k] @ n1"
    "numbered {Suc (Suc k)..<label_counter c} (defined_labels n1)"
    "distinct (defined_labels n1)" "numbered {..<label_counter c} (used_labels n1)"
    "Suc (Suc k) \<le> label_counter c"
    unfolding emits_def by (auto simp: write_def k)
  from e obtain n2 where 2: "output d = output c @ [''goto '' @ label_text p2 (Suc k), ''label '' @ label_text p1 k] @ n2"
    "numbered {label_counter c..<label_counter d} (defined_labels n2)"
    "distinct (defined_labels n2)" "numbered {..<label_counter d} (used_labels n2)"
    "label_counter c \<le> label_counter d"
    unfolding emits_def by (auto simp: write_def)
  let ?F = "label_text p1 k" and ?E = "label_text p2 (Suc k)"
  let ?new = "[c0, ''if-goto '' @ ?F] @ n1 @ [''goto '' @ ?E, ''label '' @ ?F] @ n2 @ [''label '' @ ?E]"
  let ?D = "{k..<label_counter d}"
  from c0 have c0': "take 6 c0 \<noteq> ''label ''" "label_of c0 = None"
    by (auto simp: plain_def label_of_def split: if_splits)
  have dl: "defined_labels ?new = defined_labels n1 @ [?F] @ defined_labels n2 @ [?E]"
    using c0'(1) by (simp add: defined_labels_def)
  have ul: "used_labels ?new = [?F] @ used_labels n1 @ [?E, ?F] @ used_labels n2 @ [?E]"
    using c0'(2) by (simp add: used_labels_def map_filter_def) (simp add: label_of_def)
  have kd: "k \<in> ?D" "Suc k \<in> ?D" using 1(5) 2(5) by auto
  have n1D: "numbered ?D (defined_labels n1)"
    by (rule numbered_mono [OF 1(2)]) (use 2(5) in auto)
  have n2D: "numbered ?D (defined_labels n2)"
    by (rule numbered_mono [OF 2(2)]) (use 1(5) in auto)
  have num: "numbered ?D (defined_labels ?new)"
    unfolding dl numbered_simps(2)
    using n1D n2D numbered_single [OF p(1) kd(1)] numbered_single [OF p(2) kd(2)]
    by (intro conjI)
  have F1: "?F \<notin> set (defined_labels n1)" by (rule numbered_notin [OF 1(2)]) simp
  have F2: "?F \<notin> set (defined_labels n2)" by (rule numbered_notin [OF 2(2)]) (use 1(5) in simp)
  have E1: "?E \<notin> set (defined_labels n1)" by (rule numbered_notin [OF 1(2)]) simp
  have E2: "?E \<notin> set (defined_labels n2)" by (rule numbered_notin [OF 2(2)]) (use 1(5) in simp)
  have FE: "?F \<noteq> ?E" using label_text_number [of p1 k p2 "Suc k"] by auto
  have dj: "set (defined_labels n1) \<inter> set (defined_labels n2) = {}"
    by (rule numbered_disjoint [OF 1(2) 2(2)]) auto
  have dist: "distinct (defined_labels ?new)"
    unfolding dl using 1(3) 2(3) F1 F2 E1 E2 FE dj by auto
  have u1: "numbered {..<label_counter d} (used_labels n1)"
    by (rule numbered_mono [OF 1(4)]) (use 2(5) in auto)
  have ku: "k \<in> {..<label_counter d}" "Suc k \<in> {..<label_counter d}" using 1(5) 2(5) by auto
  have use: "numbered {..<label_counter d} (used_labels ?new)"
    unfolding ul numbered_simps(2)
    using u1 2(4) numbered_single [OF p(1) ku(1)] numbered_single [OF p(2) ku(2)]
      numbered_simps(2) [of "{..<label_counter d}" "[?E]" "[?F]"]
    by (intro conjI) simp_all
  have out: "output (write (''label '' @ ?E) d) = output b @ ?new"
    using 1(1) 2(1) by (simp add: write_def)
  have cnt: "label_counter (write (''label '' @ ?E) d) = label_counter d"
    by (simp add: write_def)
  have "k \<le> label_counter d" using 1(5) 2(5) by simp
  with out num dist use show ?thesis
    unfolding emits_def cnt k [symmetric] by blast
qed

lemma emits_while_block:
  assumes c: "emits (write (''label '' @ label_text p1 k) (bump (bump b))) c"
    and d: "emits (write (''if-goto '' @ label_text p2 (Suc k)) (write c0 c)) d"
    and k: "k = label_counter b" and c0: "plain c0"
    and p: "p1 \<in> set label_prefixes" "p2 \<in> set label_prefixes"
  shows "emits b (write (''label '' @ label_text p2 (Suc k)) (write (''goto '' @ label_text p1 k) d))"
proof -
  from c obtain n1 where 1: "output c = output b @ [''label '' @ label_text p1 k] @ n1"
    "numbered {Suc (Suc k)..<label_counter c} (defined_labels n1)"
    "distinct (defined_labels n1)" "numbered {..<label_counter c} (used_labels n1)"
    "Suc (Suc k) \<le> label_counter c"
    unfolding emits_def by (auto simp: write_def k)
  from d obtain n2 where 2: "output d = output c @ [c0, ''if-goto '' @ label_text p2 (Suc k)] @ n2"
    "numbered {label_counter c..<label_counter d} (defined_labels n2)"
    "distinct (defined_labels n2)" "numbered {..<label_counter d} (used_labels n2)"
    "label_counter c \<le> label_counter d"
    unfolding emits_def by (auto simp: write_def)
  let ?L = "label_text p1 k" and ?E = "label_text p2 (Suc k)"
  let ?new = "[''label '' @ ?L] @ n1 @ [c0, ''if-goto '' @ ?E] @ n2 @ [''goto '' @ ?L, ''label '' @ ?E]"
  let ?D = "{k..<label_counter d}"
  from c0 have c0': "take 6 c0 \<noteq> ''label ''" "label_of c0 = None"
    by (auto simp: plain_def label_of_def split: if_splits)
  have dl: "defined_labels ?new = [?L] @ defined_labels n1 @ defined_labels n2 @ [?E]"
    using c0'(1) by (simp add: defined_labels_def)
  have ul: "used_labels ?new = [?L] @ used_labels n1 @ [?E] @ used_labels n2 @ [?L] @ [?E]"
    using c0'(2) by (simp add: used_labels_def map_filter_def) (simp add: label_of_def)
  have kd: "k \<in> ?D" "Suc k \<in> ?D" using 1(5) 2(5) by auto
  have n1D: "numbered ?D (defined_labels n1)"
    by (rule numbered_mono [OF 1(2)]) (use 2(5) in auto)
  have n2D: "numbered ?D (defined_labels n2)"
    by (rule numbered_mono [OF 2(2)]) (use 1(5) in auto)
  have num: "numbered ?D (defined_labels ?new)"
    unfolding dl numbered_simps(2)
    using n1D n2D numbered_single [OF p(1) kd(1)] numbered_single [OF p(2) kd(2)]
    by (intro conjI)
  have L1: "?L \<notin> set (defined_labels n1)" by (rule numbered_notin [OF 1(2)]) simp
  have L2: "?L \<notin> set (defined_labels n2)" by (rule numbered_notin [OF 2(2)]) (use 1(5) in simp)
  have E1: "?E \<notin> set (defined_labels n1)" by (rule numbered_notin [OF 1(2)]) simp
  have E2: "?E \<notin> set (defined_labels n2)" by (rule numbered_notin [OF 2(2)]) (use 1(5) in simp)
  have LE: "?L \<noteq> ?E" using label_text_number [of p1 k p2 "Suc k"] by auto
  have dj: "set (defined_labels n1) \<inter> set (defined_labels n2) = {}"
    by (rule numbered_disjoint [OF 1(2) 2(2)]) auto
  have dist: "distinct (defined_labels ?new)"
    unfolding dl using 1(3) 2(3) L1 L2 E1 E2 LE dj by auto
  have u1: "numbered {..<label_counter d} (used_labels n1)"
    by (rule numbered_mono [OF 1(4)]) (use 2(5) in auto)
  have ku: "k \<in> {..<label_counter d}" "Suc k \<in> {..<label_counter d}" using 1(5) 2(5) by auto
  have use: "numbered {..<label_counter d} (used_labels ?new)"
    unfolding ul numbered_simps(2)
    using u1 2(4) numbered_single [OF p(1) ku(1)] numbered_single [OF p(2) ku(2)]
    by (intro conjI)
  have out: "output (write (''label '' @ ?E) (write (''goto '' @ ?L) d)) = output b @ ?new"
    using 1(1) 2(1) by (simp add: write_def)
  have cnt: "label_counter (write (''label '' @ ?E) (write (''goto '' @ ?L) d)) = label_counter d"
    by (simp add: write_def)
  have "k \<le> label_counter d" using 1(5) 2(5) by simp
  with out num dist use show ?thesis
    unfolding emits_def cnt k [symmetric] by blast
qed

lemma frame_fwd: "frame s s' \<Longrightarrow> \<forall>a. frame a s \<longrightarrow> frame a s'"
  using frame_trans by blast

lemma not_plain: "plain ''not''"
  by (simp add: plain_def label_of_def)

lemma if_block_fwd:
  assumes "\<forall>x. frame x (gen (write_if (label_text ''IF_FALSE'' (label_counter (code_gen b))))
              (gen (write_arithmetic ''~'') (b\<lparr>code_gen := bump (bump (code_gen b))\<rparr>)))
            \<longrightarrow> frame x c"
    and "\<forall>x. frame x (gen (write_label (label_text ''IF_FALSE'' (label_counter (code_gen b))))
              (gen (write_goto (label_text ''IF_END'' (Suc (label_counter (code_gen b))))) c))
            \<longrightarrow> frame x d"
  shows "\<forall>x. frame x b \<longrightarrow>
           frame x (gen (write_label (label_text ''IF_END'' (Suc (label_counter (code_gen b))))) d)"
proof -
  from assms(1) frame_refl have 1: "frame (gen (write_if (label_text ''IF_FALSE'' (label_counter (code_gen b))))
              (gen (write_arithmetic ''~'') (b\<lparr>code_gen := bump (bump (code_gen b))\<rparr>))) c"
    by blast
  from assms(2) frame_refl have 2: "frame (gen (write_label (label_text ''IF_FALSE'' (label_counter (code_gen b))))
              (gen (write_goto (label_text ''IF_END'' (Suc (label_counter (code_gen b))))) c)) d"
    by blast
  have "emits (code_gen b) (write (''label '' @ label_text ''IF_END'' (Suc (label_counter (code_gen b)))) (code_gen d))"
  proof (rule emits_if_block [where ?c0.0 = "''not''" and c = "code_gen c"])
    show "emits (write (''if-goto '' @ label_text ''IF_FALSE'' (label_counter (code_gen b)))
            (write ''not'' (bump (bump (code_gen b))))) (code_gen c)"
      using 1 by (simp add: frame_def gen_def write_if_def write_arithmetic_def op_map_def)
    show "emits (write (''label '' @ label_text ''IF_FALSE'' (label_counter (code_gen b)))
            (write (''goto '' @ label_text ''IF_END'' (Suc (label_counter (code_gen b)))) (code_gen c)))
            (code_gen d)"
      using 2 by (simp add: frame_def gen_def write_label_def write_goto_def)
  qed (simp_all add: not_plain label_prefixes_def)
  moreover have "symbol_table d = symbol_table b \<and> class_name d = class_name b
      \<and> subroutine_name d = subroutine_name b"
    using 1 2 by (simp add: frame_def gen_def)
  ultimately have "frame b (gen (write_label (label_text ''IF_END'' (Suc (label_counter (code_gen b))))) d)"
    by (simp add: frame_def gen_def write_label_def)
  then show ?thesis by (rule frame_fwd)
qed

lemma while_block_fwd:
  assumes "\<forall>x. frame x (gen (write_label (label_text ''WHILE_LOOP'' (label_counter (code_gen b))))
              (b\<lparr>code_gen := bump (bump (code_gen b))\<rparr>))
            \<longrightarrow> frame x c"
    and "\<forall>x. frame x (gen (write_if (label_text ''WHILE_END'' (Suc (label_counter (code_gen b)))))
              (gen (write_arithmetic ''~'') c))
            \<longrightarrow> frame x d"
  shows "\<forall>x. frame x b \<longrightarrow>
           frame x (gen (write_label (label_text ''WHILE_END'' (Suc (label_counter (code_gen b)))))
              (gen (write_goto (label_text ''WHILE_LOOP'' (label_counter (code_gen b)))) d))"
proof -
  from assms(1) frame_refl have 1: "frame (gen (write_label (label_text ''WHILE_LOOP'' (label_counter (code_gen b))))
              (b\<lparr>code_gen := bump (bump (code_gen b))\<rparr>)) c"
    by blast
  from assms(2) frame_refl have 2: "frame (gen (write_if (label_text ''WHILE_END'' (Suc (label_counter (code_gen b)))))
              (gen (write_arithmetic ''~'') c)) d"
    by blast
  have "emits (code_gen b) (write (''label '' @ label_text ''WHILE_END'' (Suc (label_counter (code_gen b))))
           (write (''goto '' @ label_text ''WHILE_LOOP'' (label_counter (code_gen b))) (code_gen d)))"
  proof (rule emits_while_block [where ?c0.0 = "''not''" and c = "code_gen c"])
    show "emits (write (''label '' @ label_text ''WHILE_LOOP'' (label_counter (code_gen b)))
            (bump (bump (code_gen b)))) (code_gen c)"
      using 1 by (simp add: frame_def gen_def write_label_def)
    show "emits (write (''if-goto '' @ label_text ''WHILE_END'' (Suc (label_counter (code_gen b))))
            (write ''not'' (code_gen c))) (code_gen d)"
      using 2 by (simp add: frame_def gen_def write_if_def write_arithmetic_def op_map_def)
  qed (simp_all add: not_plain label_prefixes_def)
  moreover have "symbol_table d = symbol_table b \<and> class_name d = class_name b
      \<and> subroutine_name d = subroutine_name b"
    using 1 2 by (simp add: frame_def gen_def)
  ultimately have "frame b (gen (write_label (label_text ''WHILE_END'' (Suc (label_counter (code_gen b)))))
              (gen (write_goto (label_text ''WHILE_LOOP'' (label_counter (code_gen b)))) d))"
    by (simp add: frame_def gen_def write_label_def write_goto_def)
  then show ?thesis by (rule frame_fwd)
qed

lemma if_block_else_fwd:
  assumes 1: "\<forall>x. frame x (gen (write_if (label_text ''IF_FALSE'' (label_counter (code_gen b))))
              (gen (write_arithmetic ''~'') (b\<lparr>code_gen := bump (bump (code_gen b))\<rparr>)))
            \<longrightarrow> frame x c"
    and c: "same c' c"
    and 2: "\<forall>x. frame x (gen (write_label (label_text ''IF_FALSE'' (label_counter (code_gen b))))
              (gen (write_goto (label_text ''IF_END'' (Suc (label_counter (code_gen b))))) c'))
            \<longrightarrow> frame x d"
    and d: "same d' d"
  shows "\<forall>x. frame x b \<longrightarrow>
           frame x (gen (write_label (label_text ''IF_END'' (Suc (label_counter (code_gen b))))) d')"
proof -
  have "\<forall>x. frame x (gen (write_label (label_text ''IF_FALSE'' (label_counter (code_gen b))))
              (gen (write_goto (label_text ''IF_END'' (Suc (label_counter (code_gen b))))) c))
            \<longrightarrow> frame x d"
    using 2 frame_cong [OF same_gen [OF same_gen [OF c]]] by simp
  from if_block_fwd [OF 1 this] show ?thesis
    using frame_cong [OF same_gen [OF d]] by simp
qed

lemma if_block_noelse_fwd:
  assumes 1: "\<forall>x. frame x (gen (write_if (label_text ''IF_FALSE'' (label_counter (code_gen b))))
              (gen (write_arithmetic ''~'') (b\<lparr>code_gen := bump (bump (code_gen b))\<rparr>)))
            \<longrightarrow> frame x c"
    and c: "same c' c"
  shows "\<forall>x. frame x b \<longrightarrow>
           frame x (gen (write_label (label_text ''IF_END'' (Suc (label_counter (code_gen b)))))
             (gen (write_label (label_text ''IF_FALSE'' (label_counter (code_gen b))))
              (gen (write_goto (label_text ''IF_END'' (Suc (label_counter (code_gen b))))) c')))"
proof -
  have "\<forall>x. frame x (gen (write_label (label_text ''IF_FALSE'' (label_counter (code_gen b))))
              (gen (write_goto (label_text ''IF_END'' (Suc (label_counter (code_gen b))))) c))
            \<longrightarrow> frame x (gen (write_label (label_text ''IF_FALSE'' (label_counter (code_gen b))))
              (gen (write_goto (label_text ''IF_END'' (Suc (label_counter (code_gen b))))) c))"
    by simp
  from if_block_fwd [OF 1 this] show ?thesis
    using frame_cong [OF same_gen [OF same_gen [OF same_gen [OF c]]]] by simp
qed

lemma while_block_same_fwd:
  assumes 1: "\<forall>x. frame x (gen (write_label (label_text ''WHILE_LOOP'' (label_counter (code_gen b))))
              (b\<lparr>code_gen := bump (bump (code_gen b))\<rparr>))
            \<longrightarrow> frame x c"
    and c: "same c' c"
    and 2: "\<forall>x. frame x (gen (write_if (label_text ''WHILE_END'' (Suc (label_counter (code_gen b)))))
              (gen (write_arithmetic ''~'') c'))
            \<longrightarrow> frame x d"
    and d: "same d' d"
  shows "\<forall>x. frame x b \<longrightarrow>
           frame x (gen (write_label (label_text ''WHILE_END'' (Suc (label_counter (code_gen b)))))
              (gen (write_goto (label_text ''WHILE_LOOP'' (label_counter (code_gen b)))) d'))"
proof -
  have "\<forall>x. frame x (gen (write_if (label_text ''WHILE_END'' (Suc (label_counter (code_gen b)))))
              (gen (write_arithmetic ''~'') c))
            \<longrightarrow> frame x d"
    using 2 frame_cong [OF same_gen [OF same_gen [OF c]]] by simp
  from while_block_fwd [OF 1 this] show ?thesis
    using frame_cong [OF same_gen [OF same_gen [OF d]]] by simp
qed

section \<open>Statements and expressions\<close>

text \<open>
  Every procedure for statements and expressions leaves the symbol table, the class name
  and the subroutine name as they were, and extends the output as \<open>emits\<close> says. Each is
  proved from the same fact about the procedures it calls with a lower budget; the facts
  are then put together by induction on the budget.
\<close>

lemma compile_do_frame:
  assumes call: "\<And>s s'. compile_subroutine_call n s = Inr s' \<Longrightarrow> frame s s'"
    and run: "compile_do (Suc n) st = Inr st'"
  shows "frame st st'"
proof -
  have "frame a st \<Longrightarrow> frame a st'" for a
    using run
    by (auto simp: and_then_Inr dest!: fwd_rules call [THEN frame_fwd])
  from this [OF frame_refl] show ?thesis .
qed

lemma compile_return_frame:
  assumes expr: "\<And>s s'. compile_expression n s = Inr s' \<Longrightarrow> frame s s'"
    and run: "compile_return (Suc n) st = Inr st'"
  shows "frame st st'"
proof -
  have "frame a st \<Longrightarrow> frame a st'" for a
    using run
    by (auto simp: and_then_Inr dest!: fwd_rules expr [THEN frame_fwd] split: if_splits)
  from this [OF frame_refl] show ?thesis .
qed

lemma compile_let_frame:
  assumes expr: "\<And>s s'. compile_expression n s = Inr s' \<Longrightarrow> frame s s'"
    and run: "compile_let (Suc n) st = Inr st'"
  shows "frame st st'"
proof -
  have "frame a st \<Longrightarrow> frame a st'" for a
    using run
    by (auto simp: and_then_Inr Let_def dest!: fwd_rules expr [THEN frame_fwd] split: if_splits)
  from this [OF frame_refl] show ?thesis .
qed

lemma compile_statements_frame:
  assumes stmts: "\<And>s s'. compile_statements n s = Inr s' \<Longrightarrow> frame s s'"
    and l: "\<And>s s'. compile_let n s = Inr s' \<Longrightarrow> frame s s'"
    and i: "\<And>s s'. compile_if n s = Inr s' \<Longrightarrow> frame s s'"
    and w: "\<And>s s'. compile_while n s = Inr s' \<Longrightarrow> frame s s'"
    and d: "\<And>s s'. compile_do n s = Inr s' \<Longrightarrow> frame s s'"
    and r: "\<And>s s'. compile_return n s = Inr s' \<Longrightarrow> frame s s'"
    and run: "compile_statements (Suc n) st = Inr st'"
  shows "frame st st'"
proof -
  have "frame a st \<Longrightarrow> frame a st'" for a
    using run
    by (auto simp: and_then_Inr simp del: set_simps
        dest!: stmts [THEN frame_fwd] l [THEN frame_fwd] i [THEN frame_fwd]
          w [THEN frame_fwd] d [THEN frame_fwd] r [THEN frame_fwd] split: if_splits)
  from this [OF frame_refl] show ?thesis .
qed

lemma compile_expression_frame:
  assumes t: "\<And>s s'. compile_term n s = Inr s' \<Longrightarrow> frame s s'"
    and l: "\<And>s s'. compile_expression_loop n s = Inr s' \<Longrightarrow> frame s s'"
    and run: "compile_expression (Suc n) st = Inr st'"
  shows "frame st st'"
proof -
  have "frame a st \<Longrightarrow> frame a st'" for a
    using run
    by (auto simp: and_then_Inr dest!: t [THEN frame_fwd] l [THEN frame_fwd])
  from this [OF frame_refl] show ?thesis .
qed

lemma binary_operator:
  assumes "match [''+'', ''-'', ''*'', ''/'', ''&'', ''|'', ''<'', ''>'', ''=''] st"
  shows "tok_value (current_token st)
       \<in> set [''+'', ''-'', ''*'', ''/'', ''&'', ''|'', ''<'', ''>'', ''='', ''~'', ''-neg'']"
  using assms by (auto simp: match_def)

lemma compile_expression_loop_frame:
  assumes t: "\<And>s s'. compile_term n s = Inr s' \<Longrightarrow> frame s s'"
    and l: "\<And>s s'. compile_expression_loop n s = Inr s' \<Longrightarrow> frame s s'"
    and run: "compile_expression_loop (Suc n) st = Inr st'"
  shows "frame st st'"
proof (cases "match [''+'', ''-'', ''*'', ''/'', ''&'', ''|'', ''<'', ''>'', ''=''] st")
  case False
  with run show ?thesis by (simp add: frame_refl)
next
  case True
  note op = frame_write_arithmetic [OF binary_operator [OF True]]
  have "frame a st \<Longrightarrow> frame a st'" for a
    using run True
    by (auto simp: and_then_Inr Let_def op simp del: set_simps
        dest!: fwd_rules t [THEN frame_fwd] l [THEN frame_fwd])
  from this [OF frame_refl] show ?thesis .
qed

lemma unary_operator:
  "(if op = ''-'' then ''-neg'' else ''~'')
       \<in> set [''+'', ''-'', ''*'', ''/'', ''&'', ''|'', ''<'', ''>'', ''='', ''~'', ''-neg'']"
  "''~'' \<in> set [''+'', ''-'', ''*'', ''/'', ''&'', ''|'', ''<'', ''>'', ''='', ''~'', ''-neg'']"
  "''+'' \<in> set [''+'', ''-'', ''*'', ''/'', ''&'', ''|'', ''<'', ''>'', ''='', ''~'', ''-neg'']"
  by simp_all

lemmas frame_write_operator =
  frame_write_arithmetic [OF unary_operator(1)] frame_write_arithmetic [OF unary_operator(2)]
  frame_write_arithmetic [OF unary_operator(3)]

lemma compile_term_int:
  assumes "tok_type (current_token st) = INT_CONST"
  shows "compile_term (Suc n) st =
     and_then (python_int (tok_value (current_token st))) (\<lambda>v.
        advance (gen (write_push ''constant'' v) st))"
  using assms by simp

lemma compile_term_string:
  assumes "tok_type (current_token st) = STRING_CONST"
  shows "compile_term (Suc n) st =
     advance (gen (string_chars (tok_value (current_token st)))
       (gen (write_call ''String.new'' 1)
         (gen (write_push ''constant'' (length (tok_value (current_token st)))) st)))"
  using assms by (simp add: Let_def)

lemma compile_term_keyword:
  assumes "tok_type (current_token st) \<noteq> INT_CONST"
    and "tok_type (current_token st) \<noteq> STRING_CONST"
    and "match [''true'', ''false'', ''null'', ''this''] st"
  shows "compile_term (Suc n) st =
     advance
       (if tok_value (current_token st) = ''true'' then
          gen (write_arithmetic ''~'') (gen (write_push ''constant'' 1) st)
        else if tok_value (current_token st) \<in> set [''false'', ''null''] then
          gen (write_push ''constant'' 0) st
        else if tok_value (current_token st) = ''this'' then
          gen (write_push ''pointer'' 0) st
        else st)"
  using assms by (simp add: Let_def del: set_simps)

lemma compile_term_unary:
  assumes "tok_type (current_token st) \<noteq> INT_CONST"
    and "tok_type (current_token st) \<noteq> STRING_CONST"
    and "\<not> match [''true'', ''false'', ''null'', ''this''] st"
    and "match [''-'', ''~''] st"
  shows "compile_term (Suc n) st =
     and_then (advance st) (\<lambda>s.
     and_then (compile_term n s) (\<lambda>s.
     Inr (gen (write_arithmetic
            (if tok_value (current_token st) = ''-'' then ''-neg'' else ''~'')) s)))"
  using assms by (simp add: Let_def del: set_simps)

lemma compile_term_identifier:
  assumes "tok_type (current_token st) = IDENTIFIER"
    and "\<not> match [''true'', ''false'', ''null'', ''this''] st"
    and "\<not> match [''-'', ''~''] st"
  shows "compile_term (Suc n) st =
     and_then (advance st) (\<lambda>s.
        if match [''[''] s then
          and_then (advance s) (\<lambda>s1.
          and_then (compile_expression n s1) (\<lambda>s2.
          and_then (expect [SYMBOL] (Some '']'') s2) (\<lambda>(_, s3).
          and_then (push_symbol (lookup (tok_value (current_token st)) (symbol_table s)) s3) (\<lambda>s4.
          Inr (gen (write_push ''that'' 0) (gen (write_pop ''pointer'' 1)
                 (gen (write_arithmetic ''+'') s4)))))))
        else if match [''('', ''.''] s then
          and_then (step_back (tok_value (current_token st)) s) (\<lambda>s. compile_subroutine_call n s)
        else
          push_symbol (lookup (tok_value (current_token st)) (symbol_table s)) s)"
  using assms by (simp add: Let_def del: set_simps cong del: if_weak_cong)

lemma compile_term_paren:
  assumes "tok_type (current_token st) \<noteq> INT_CONST"
    and "tok_type (current_token st) \<noteq> STRING_CONST"
    and "tok_type (current_token st) \<noteq> IDENTIFIER"
    and "\<not> match [''true'', ''false'', ''null'', ''this''] st"
    and "\<not> match [''-'', ''~''] st"
    and "match [''(''] st"
  shows "compile_term (Suc n) st =
     and_then (advance st) (\<lambda>s.
     and_then (compile_expression n s) (\<lambda>s.
     and_then (expect [SYMBOL] (Some '')'') s) (\<lambda>(_, s). Inr s)))"
  using assms by (simp add: Let_def del: set_simps)

lemma compile_term_other:
  assumes "tok_type (current_token st) \<noteq> INT_CONST"
    and "tok_type (current_token st) \<noteq> STRING_CONST"
    and "tok_type (current_token st) \<noteq> IDENTIFIER"
    and "\<not> match [''true'', ''false'', ''null'', ''this''] st"
    and "\<not> match [''-'', ''~''] st"
    and "\<not> match [''(''] st"
  shows "compile_term (Suc n) st = Inr st"
  using assms by (simp add: Let_def del: set_simps)

lemma advance_frame:
  assumes "advance s = Inr s'" and "frame a s"
  shows "frame a s'"
  using frame_cong [OF advance_same [OF assms(1)]] assms(2) by simp

lemma term_frame_int:
  assumes run: "compile_term (Suc n) st = Inr st'" and a: "frame a st"
    and h: "tok_type (current_token st) = INT_CONST"
  shows "frame a st'"
proof -
  from run have "and_then (python_int (tok_value (current_token st))) (\<lambda>v.
        advance (gen (write_push ''constant'' v) st)) = Inr st'"
    by (simp only: compile_term_int [OF h])
  then obtain v where "advance (gen (write_push ''constant'' v) st) = Inr st'"
    unfolding and_then_Inr by blast
  then show ?thesis
    by (rule advance_frame) (rule frame_write_push [OF a])
qed

lemma term_frame_string:
  assumes run: "compile_term (Suc n) st = Inr st'" and a: "frame a st"
    and h: "tok_type (current_token st) = STRING_CONST"
  shows "frame a st'"
proof -
  from run have "advance (gen (string_chars (tok_value (current_token st)))
       (gen (write_call ''String.new'' 1)
         (gen (write_push ''constant'' (length (tok_value (current_token st)))) st))) = Inr st'"
    by (simp only: compile_term_string [OF h])
  then show ?thesis
    by (rule advance_frame)
      (intro frame_string_chars frame_write_call frame_write_push a)
qed

lemma term_frame_keyword:
  assumes run: "compile_term (Suc n) st = Inr st'" and a: "frame a st"
    and h: "tok_type (current_token st) \<noteq> INT_CONST"
      "tok_type (current_token st) \<noteq> STRING_CONST"
      "match [''true'', ''false'', ''null'', ''this''] st"
  shows "frame a st'"
proof -
  let ?s = "if tok_value (current_token st) = ''true'' then
          gen (write_arithmetic ''~'') (gen (write_push ''constant'' 1) st)
        else if tok_value (current_token st) \<in> set [''false'', ''null''] then
          gen (write_push ''constant'' 0) st
        else if tok_value (current_token st) = ''this'' then
          gen (write_push ''pointer'' 0) st
        else st"
  from run have "advance ?s = Inr st'"
    by (simp only: compile_term_keyword [OF h])
  moreover have "frame a ?s"
    using a frame_write_operator(2) [OF frame_write_push [OF a]] frame_write_push [OF a]
    by (simp del: set_simps)
  ultimately show ?thesis by (rule advance_frame)
qed

lemma term_frame_unary:
  assumes t: "\<And>s s'. compile_term n s = Inr s' \<Longrightarrow> frame s s'"
    and run: "compile_term (Suc n) st = Inr st'" and a: "frame a st"
    and h: "tok_type (current_token st) \<noteq> INT_CONST"
      "tok_type (current_token st) \<noteq> STRING_CONST"
      "\<not> match [''true'', ''false'', ''null'', ''this''] st" "match [''-'', ''~''] st"
  shows "frame a st'"
  using run [unfolded compile_term_unary [OF h]] a
  by (auto simp: and_then_Inr frame_write_operator simp del: compile_term.simps set_simps
      dest!: fwd_rules t [THEN frame_fwd])

lemma term_frame_identifier:
  assumes e: "\<And>s s'. compile_expression n s = Inr s' \<Longrightarrow> frame s s'"
    and c: "\<And>s s'. compile_subroutine_call n s = Inr s' \<Longrightarrow> frame s s'"
    and run: "compile_term (Suc n) st = Inr st'" and a: "frame a st"
    and h: "tok_type (current_token st) = IDENTIFIER"
      "\<not> match [''true'', ''false'', ''null'', ''this''] st" "\<not> match [''-'', ''~''] st"
  shows "frame a st'"
  using run [unfolded compile_term_identifier [OF h]] a
  by (auto simp: and_then_Inr frame_write_operator simp del: compile_term.simps set_simps
      dest!: fwd_rules e [THEN frame_fwd] c [THEN frame_fwd] split: if_splits)

lemma term_frame_paren:
  assumes e: "\<And>s s'. compile_expression n s = Inr s' \<Longrightarrow> frame s s'"
    and run: "compile_term (Suc n) st = Inr st'" and a: "frame a st"
    and h: "tok_type (current_token st) \<noteq> INT_CONST"
      "tok_type (current_token st) \<noteq> STRING_CONST"
      "tok_type (current_token st) \<noteq> IDENTIFIER"
      "\<not> match [''true'', ''false'', ''null'', ''this''] st" "\<not> match [''-'', ''~''] st"
      "match [''(''] st"
  shows "frame a st'"
  using run [unfolded compile_term_paren [OF h]] a
  by (auto simp: and_then_Inr simp del: compile_term.simps set_simps
      dest!: fwd_rules e [THEN frame_fwd])

lemma compile_term_frame:
  assumes t: "\<And>s s'. compile_term n s = Inr s' \<Longrightarrow> frame s s'"
    and e: "\<And>s s'. compile_expression n s = Inr s' \<Longrightarrow> frame s s'"
    and c: "\<And>s s'. compile_subroutine_call n s = Inr s' \<Longrightarrow> frame s s'"
    and run: "compile_term (Suc n) st = Inr st'"
  shows "frame st st'"
proof -
  note a = frame_refl [of st]
  show ?thesis
  proof (cases "tok_type (current_token st) = INT_CONST")
    case True
    from term_frame_int [OF run a True] show ?thesis .
  next
    case c1: False
    show ?thesis
    proof (cases "tok_type (current_token st) = STRING_CONST")
      case True
      from term_frame_string [OF run a True] show ?thesis .
    next
      case c2: False
      show ?thesis
      proof (cases "match [''true'', ''false'', ''null'', ''this''] st")
        case True
        from term_frame_keyword [OF run a c1 c2 True] show ?thesis .
      next
        case c3: False
        show ?thesis
        proof (cases "match [''-'', ''~''] st")
          case True
          from term_frame_unary [OF t run a c1 c2 c3 True] show ?thesis .
        next
          case c4: False
          show ?thesis
          proof (cases "tok_type (current_token st) = IDENTIFIER")
            case True
            from term_frame_identifier [OF e c run a True c3 c4] show ?thesis .
          next
            case c5: False
            show ?thesis
            proof (cases "match [''(''] st")
              case True
              from term_frame_paren [OF e run a c1 c2 c5 c3 c4 True] show ?thesis .
            next
              case False
              from run [unfolded compile_term_other [OF c1 c2 c5 c3 c4 False]]
              show ?thesis by (simp add: frame_refl)
            qed
          qed
        qed
      qed
    qed
  qed
qed

lemma compile_subroutine_call_frame:
  assumes l: "\<And>s k s'. compile_expression_list n s = Inr (k, s') \<Longrightarrow> frame s s'"
    and run: "compile_subroutine_call (Suc n) st = Inr st'"
  shows "frame st st'"
proof -
  have "frame a st \<Longrightarrow> frame a st'" for a
    using run
    by (auto simp: and_then_Inr Let_def simp del: set_simps
        dest!: fwd_rules l [THEN frame_fwd] split: if_splits option.splits)
  from this [OF frame_refl] show ?thesis .
qed

lemma compile_expression_list_frame:
  assumes e: "\<And>s s'. compile_expression n s = Inr s' \<Longrightarrow> frame s s'"
    and l: "\<And>c s k s'. compile_expression_list_loop n c s = Inr (k, s') \<Longrightarrow> frame s s'"
    and run: "compile_expression_list (Suc n) st = Inr (k, st')"
  shows "frame st st'"
proof -
  have "frame a st \<Longrightarrow> frame a st'" for a
    using run
    by (auto simp: and_then_Inr Let_def simp del: set_simps
        dest!: fwd_rules e [THEN frame_fwd] l [THEN frame_fwd] split: if_splits)
  from this [OF frame_refl] show ?thesis .
qed

lemma compile_expression_list_loop_frame:
  assumes e: "\<And>s s'. compile_expression n s = Inr s' \<Longrightarrow> frame s s'"
    and l: "\<And>c s k s'. compile_expression_list_loop n c s = Inr (k, s') \<Longrightarrow> frame s s'"
    and run: "compile_expression_list_loop (Suc n) c st = Inr (k, st')"
  shows "frame st st'"
proof -
  have "frame a st \<Longrightarrow> frame a st'" for a
    using run
    by (auto simp: and_then_Inr Let_def simp del: set_simps
        dest!: fwd_rules e [THEN frame_fwd] l [THEN frame_fwd] split: if_splits)
  from this [OF frame_refl] show ?thesis .
qed

lemma compile_while_frame:
  assumes e: "\<And>s s'. compile_expression n s = Inr s' \<Longrightarrow> frame s s'"
    and s: "\<And>s s'. compile_statements n s = Inr s' \<Longrightarrow> frame s s'"
    and run: "compile_while (Suc n) st = Inr st'"
  shows "frame st st'"
proof -
  have "frame a st \<Longrightarrow> frame a st'" for a
    using run
    apply (auto simp: and_then_Inr Let_def get_unique_label_bump simp del: set_simps
        dest!: fwd_rules e [THEN frame_fwd] s [THEN frame_fwd] split: if_splits)
    apply (drule (3) while_block_same_fwd)
    apply simp
    done
  from this [OF frame_refl] show ?thesis .
qed

lemma compile_if_frame:
  assumes e: "\<And>s s'. compile_expression n s = Inr s' \<Longrightarrow> frame s s'"
    and s: "\<And>s s'. compile_statements n s = Inr s' \<Longrightarrow> frame s s'"
    and run: "compile_if (Suc n) st = Inr st'"
  shows "frame st st'"
proof -
  have "frame a st \<Longrightarrow> frame a st'" for a
    using run
    apply (auto simp: and_then_Inr Let_def get_unique_label_bump simp del: set_simps
        dest!: fwd_rules e [THEN frame_fwd] s [THEN frame_fwd] split: if_splits)
    apply (drule (3) if_block_else_fwd, simp)
    apply (drule (1) if_block_noelse_fwd, simp)
    apply (drule (1) if_block_noelse_fwd, simp)
    done
  from this [OF frame_refl] show ?thesis .
qed

lemma statements_frame_all:
  "(\<forall>st st'. compile_statements n st = Inr st' \<longrightarrow> frame st st') \<and>
   (\<forall>st st'. compile_let n st = Inr st' \<longrightarrow> frame st st') \<and>
   (\<forall>st st'. compile_if n st = Inr st' \<longrightarrow> frame st st') \<and>
   (\<forall>st st'. compile_while n st = Inr st' \<longrightarrow> frame st st') \<and>
   (\<forall>st st'. compile_do n st = Inr st' \<longrightarrow> frame st st') \<and>
   (\<forall>st st'. compile_return n st = Inr st' \<longrightarrow> frame st st') \<and>
   (\<forall>st st'. compile_expression n st = Inr st' \<longrightarrow> frame st st') \<and>
   (\<forall>st st'. compile_expression_loop n st = Inr st' \<longrightarrow> frame st st') \<and>
   (\<forall>st st'. compile_term n st = Inr st' \<longrightarrow> frame st st') \<and>
   (\<forall>st st'. compile_subroutine_call n st = Inr st' \<longrightarrow> frame st st') \<and>
   (\<forall>st k st'. compile_expression_list n st = Inr (k, st') \<longrightarrow> frame st st') \<and>
   (\<forall>c st k st'. compile_expression_list_loop n c st = Inr (k, st') \<longrightarrow> frame st st')"
proof (induction n)
  case 0
  show ?case by simp
next
  case (Suc n)
  note c1 = Suc
  note c2 = c1 [THEN conjunct2]
  note c3 = c2 [THEN conjunct2]
  note c4 = c3 [THEN conjunct2]
  note c5 = c4 [THEN conjunct2]
  note c6 = c5 [THEN conjunct2]
  note c7 = c6 [THEN conjunct2]
  note c8 = c7 [THEN conjunct2]
  note c9 = c8 [THEN conjunct2]
  note c10 = c9 [THEN conjunct2]
  note c11 = c10 [THEN conjunct2]
  note c12 = c11 [THEN conjunct2]
  note stmts = c1 [THEN conjunct1, rule_format]
  note l = c2 [THEN conjunct1, rule_format]
  note i = c3 [THEN conjunct1, rule_format]
  note w = c4 [THEN conjunct1, rule_format]
  note d = c5 [THEN conjunct1, rule_format]
  note r = c6 [THEN conjunct1, rule_format]
  note e = c7 [THEN conjunct1, rule_format]
  note el = c8 [THEN conjunct1, rule_format]
  note t = c9 [THEN conjunct1, rule_format]
  note c = c10 [THEN conjunct1, rule_format]
  note xl = c11 [THEN conjunct1, rule_format]
  note xll = c12 [rule_format]
  note ih = stmts l i w d r e el t c xl xll
  show ?case
  proof (intro conjI allI impI)
    fix st st' assume run: "compile_statements (Suc n) st = Inr st'"
    show "frame st st'" by (rule compile_statements_frame [OF _ _ _ _ _ _ run]; erule ih)
  next
    fix st st' assume run: "compile_let (Suc n) st = Inr st'"
    show "frame st st'" by (rule compile_let_frame [OF _ run]; erule ih)
  next
    fix st st' assume run: "compile_if (Suc n) st = Inr st'"
    show "frame st st'" by (rule compile_if_frame [OF _ _ run]; erule ih)
  next
    fix st st' assume run: "compile_while (Suc n) st = Inr st'"
    show "frame st st'" by (rule compile_while_frame [OF _ _ run]; erule ih)
  next
    fix st st' assume run: "compile_do (Suc n) st = Inr st'"
    show "frame st st'" by (rule compile_do_frame [OF _ run]; erule ih)
  next
    fix st st' assume run: "compile_return (Suc n) st = Inr st'"
    show "frame st st'" by (rule compile_return_frame [OF _ run]; erule ih)
  next
    fix st st' assume run: "compile_expression (Suc n) st = Inr st'"
    show "frame st st'" by (rule compile_expression_frame [OF _ _ run]; erule ih)
  next
    fix st st' assume run: "compile_expression_loop (Suc n) st = Inr st'"
    show "frame st st'" by (rule compile_expression_loop_frame [OF _ _ run]; erule ih)
  next
    fix st st' assume run: "compile_term (Suc n) st = Inr st'"
    show "frame st st'" by (rule compile_term_frame [OF _ _ _ run]; erule ih)
  next
    fix st st' assume run: "compile_subroutine_call (Suc n) st = Inr st'"
    show "frame st st'" by (rule compile_subroutine_call_frame [OF _ run]; erule ih)
  next
    fix st k st' assume run: "compile_expression_list (Suc n) st = Inr (k, st')"
    show "frame st st'" by (rule compile_expression_list_frame [OF _ _ run]; erule ih)
  next
    fix c st k st' assume run: "compile_expression_list_loop (Suc n) c st = Inr (k, st')"
    show "frame st st'" by (rule compile_expression_list_loop_frame [OF _ _ run]; erule ih)
  qed
qed



lemma compile_subroutine_call_frames:
  "compile_subroutine_call n st = Inr st' \<Longrightarrow> frame st st'"
  using statements_frame_all [of n, THEN conjunct2, THEN conjunct2, THEN conjunct2,
      THEN conjunct2, THEN conjunct2, THEN conjunct2, THEN conjunct2, THEN conjunct2,
      THEN conjunct2, THEN conjunct1, rule_format] .

lemma compile_expression_list_frames:
  "compile_expression_list n st = Inr (k, st') \<Longrightarrow> frame st st'"
  using statements_frame_all [of n, THEN conjunct2, THEN conjunct2, THEN conjunct2,
      THEN conjunct2, THEN conjunct2, THEN conjunct2, THEN conjunct2, THEN conjunct2,
      THEN conjunct2, THEN conjunct2, THEN conjunct1, rule_format] .

section \<open>Declarations and the class\<close>





lemma keeps_symbol_table [simp]: "keeps (st\<lparr>symbol_table := t\<rparr>) st"
  by (simp add: keeps_def)










lemma gen_fields [simp]:
  "symbol_table (gen f s) = symbol_table s" "class_name (gen f s) = class_name s"
  "subroutine_name (gen f s) = subroutine_name s" "code_gen (gen f s) = f (code_gen s)"
  by (simp_all add: gen_def)


lemma emits_output: "emits cg cg' \<Longrightarrow> \<exists>new. output cg' = output cg @ new"
  unfolding emits_def by blast

lemma frame_output:
  "frame st st' \<Longrightarrow> \<exists>new. output (code_gen st') = output (code_gen st) @ new"
  unfolding frame_def using emits_output by blast





section \<open>Labels are unique in a class\<close>



section \<open>The prologue of a method\<close>

lemma str_nat_small: "str_nat 0 = ''0''" "str_nat 1 = ''1''" "str_nat (Suc 0) = ''1''"
  by code_simp+

lemma write_output [simp]:
  "output (write cmd cg) = output cg @ [cmd]"
  "output (write_push seg i cg) = output cg @ [''push '' @ seg @ '' '' @ str_nat i]"
  "output (write_pop seg i cg) = output cg @ [''pop '' @ seg @ '' '' @ str_nat i]"
  "output (write_call name k cg) = output cg @ [''call '' @ name @ '' '' @ str_nat k]"
  "output (write_function name k cg) = output cg @ [''function '' @ name @ '' '' @ str_nat k]"
  "output (write_arithmetic ''+'' cg) = output cg @ [''add'']"
  by (simp_all add: write_def write_push_def write_pop_def write_call_def write_function_def
      write_arithmetic_def op_map_def)

lemma advance_gen:
  assumes "advance s = Inr s'"
  shows "advance (gen f s) = Inr (gen f s')"
  using assms by (auto simp: advance_def gen_def and_then_Inr split: if_splits)




section \<open>A call without a receiver\<close>

lemma same_output: "same s' s \<Longrightarrow> output (code_gen s') = output (code_gen s)"
  by (simp add: same_def)

text \<open>
  Claim C8, as amended. The parser keeps no record of the kind of the subroutine it is in,
  and \<open>compile_subroutine_call\<close> makes no check. On every call of the form \<open>id(args)\<close>,
  that is, an identifier followed by \<open>(\<close>, an argument list that compiles with \<open>k\<close>
  arguments, and \<open>)\<close>, it returns without an error, having written \<open>push pointer 0\<close>, then
  the commands of the arguments, then \<open>call C.id k+1\<close>, where \<open>C\<close> is the current class.
\<close>

theorem implicit_self_call_unchecked:
  assumes "tok_type (current_token st) = IDENTIFIER"
    and "advance st = Inr s1"
    and "tok_type (current_token s1) = SYMBOL" and "tok_value (current_token s1) = ''(''"
    and "advance s1 = Inr s2"
    and "compile_expression_list n (gen (write_push ''pointer'' 0) s2) = Inr (k, s3)"
    and "expect [SYMBOL] (Some '')'') s3 = Inr (t, s4)"
  shows "compile_subroutine_call (Suc n) st =
           Inr (gen (write_call (class_name st @ ''.'' @ tok_value (current_token st)) (1 + k)) s4)
       \<and> (\<exists>args. output (code_gen s3) = output (code_gen st) @ [''push pointer 0''] @ args
             \<and> output (code_gen (gen (write_call
                   (class_name st @ ''.'' @ tok_value (current_token st)) (1 + k)) s4))
                 = output (code_gen st) @ [''push pointer 0''] @ args @
                   [''call '' @ class_name st @ ''.'' @ tok_value (current_token st) @ '' '' @
                      str_nat (1 + k)])"
proof -
  have e1: "expect [IDENTIFIER] None st = Inr (current_token st, s1)"
    using assms(1,2) by (simp add: expect_def and_then_def)
  have m: "\<not> match [''.''] s1"
    using assms(4) by (simp add: match_def)
  have c1: "class_name s1 = class_name st"
    using advance_same [OF assms(2)] by (simp add: same_def)
  have e2: "expect [SYMBOL] (Some ''('') (gen (write_push ''pointer'' 0) s1)
      = Inr (current_token s1, gen (write_push ''pointer'' 0) s2)"
    using assms(3,4) advance_gen [OF assms(5)]
    by (simp add: expect_def and_then_def gen_def)
  have run: "compile_subroutine_call (Suc n) st =
           Inr (gen (write_call (class_name st @ ''.'' @ tok_value (current_token st)) (1 + k)) s4)"
    by (simp add: e1 m c1 e2 assms(6,7) and_then_def Let_def)
  from frame_output [OF compile_expression_list_frames [OF assms(6)]] obtain args where
    a: "output (code_gen s3) = output (code_gen (gen (write_push ''pointer'' 0) s2)) @ args"
    by blast
  have o2: "output (code_gen s2) = output (code_gen st)"
    using same_output [OF advance_same [OF assms(2)]] same_output [OF advance_same [OF assms(5)]]
    by simp
  have o4: "output (code_gen s4) = output (code_gen s3)"
    using same_output [OF expect_same [OF assms(7)]] .
  have "output (code_gen s3) = output (code_gen st) @ [''push pointer 0''] @ args"
    using a by (simp add: o2 str_nat_small)
  moreover from this have "output (code_gen (gen (write_call
                   (class_name st @ ''.'' @ tok_value (current_token st)) (1 + k)) s4))
                 = output (code_gen st) @ [''push pointer 0''] @ args @
                   [''call '' @ class_name st @ ''.'' @ tok_value (current_token st) @ '' '' @
                      str_nat (1 + k)]"
    by (simp add: o4)
  ultimately show ?thesis using run by blast
qed

theorem implicit_self_call_unchecked_witness:
  "\<exists>s4. compile_subroutine_call 11 ((Parser_init (tokenize ''g(1, 2)''))\<lparr>class_name := ''A''\<rparr>)
          = Inr (gen (write_call ''A.g'' 3) s4)
      \<and> output (code_gen s4) = [''push pointer 0'', ''push constant 1'', ''push constant 2'']
      \<and> output (code_gen (gen (write_call ''A.g'' 3) s4)) =
           [''push pointer 0'', ''push constant 1'', ''push constant 2'', ''call A.g 3'']"
proof -
  let ?S = "(Parser_init (tokenize ''g(1, 2)''))\<lparr>class_name := ''A''\<rparr>"
  have i: "tok_type (current_token ?S) = IDENTIFIER" "tok_value (current_token ?S) = ''g''"
    by code_simp+
  have c: "class_name ?S = ''A''"
    by simp
  let ?s1 = "projr (advance ?S)"
  let ?s2 = "projr (advance ?s1)"
  let ?s3 = "snd (projr (compile_expression_list 10 (gen (write_push ''pointer'' 0) ?s2)))"
  let ?t = "fst (projr (expect [SYMBOL] (Some '')'') ?s3))"
  let ?s4 = "snd (projr (expect [SYMBOL] (Some '')'') ?s3))"
  have h: "advance ?S = Inr ?s1"
    "tok_type (current_token ?s1) = SYMBOL" "tok_value (current_token ?s1) = ''(''"
    "advance ?s1 = Inr ?s2"
    "compile_expression_list 10 (gen (write_push ''pointer'' 0) ?s2) = Inr (2, ?s3)"
    "expect [SYMBOL] (Some '')'') ?s3 = Inr (?t, ?s4)"
    by code_simp+
  have o: "output (code_gen ?s4) = [''push pointer 0'', ''push constant 1'', ''push constant 2'']"
    by code_simp
  have s: "str_nat 3 = ''3''" by code_simp
  have n: "Suc 10 = 11" "(1::nat) + 2 = 3" "''A'' @ ''.'' @ ''g'' = ''A.g''"
    by simp_all
  note run = implicit_self_call_unchecked [OF i(1) h, THEN conjunct1]
  have 1: "compile_subroutine_call 11 ?S = Inr (gen (write_call ''A.g'' 3) ?s4)"
    using run unfolding i c n .
  have 2: "output (code_gen (gen (write_call ''A.g'' 3) ?s4)) =
           [''push pointer 0'', ''push constant 1'', ''push constant 2'', ''call A.g 3'']"
    by (simp add: o s)
  from 1 o 2 show ?thesis by blast
qed

text \<open>
  The claim as first stated fails on a class whose function \<open>f\<close> calls \<open>g()\<close>: the class
  compiles, with a pushed receiver and a call with one argument.
\<close>

theorem implicit_self_call_counterexample:
  "parse 30 (tokenize ''class A { function void f() { do g(); return; } }'') =
     Inr (join [newline] [''function A.f 0'', ''push pointer 0'', ''call A.g 1'', ''pop temp 0'',
       ''push constant 0'', ''return''])"
  by code_simp

section \<open>Assignment to an array element\<close>





end
